theory Spec2Isabelle
  imports
    Main
    "HOL-Library.Char_ord"
    "HOL-Library.List_Lexorder"
    "HOL-Library.Product_Lexorder"
    "HOL-Library.Multiset"
begin

unbundle bit_operations_syntax

section \<open>Exceptions\<close>

text \<open>
  The Python exceptions the modelled code raises. The specification calls a
  \<open>KeyError\<close> of the lookup \<open>NotFound\<close>, the \<open>ValueError\<close> of the record
  combiner \<open>InvariantViolation\<close>, the \<open>ValueError\<close> of the filter validation
  \<open>InvalidArgument\<close> and a \<open>TypeError\<close> \<open>TypeMismatch\<close>.
\<close>

datatype error = TypeError | ValueError | KeyError | AssertionError

section \<open>Networks of the standard library\<close>

text \<open>
  \<open>ipaddress.IPv4Network\<close> and \<open>ipaddress.IPv6Network\<close>: the class is the
  version tag, the prefix length is \<open>_prefixlen\<close>. The address object
  \<open>network_address\<close> is given by two fields: its integer \<open>_ip\<close>, and its
  \<open>_scope_id\<close>, the zone of an IPv6 address such as \<open>fe80::%eth0\<close> (\<open>None\<close>
  for an address without zone and for every IPv4 address). Two address
  objects are equal when integer and scope id agree; they are compared with
  \<open><\<close> by their integers alone. Two network objects are equal when version,
  address object and netmask agree; the netmask is a function of the prefix
  length, so equality is equality of the four fields.
\<close>

datatype ipver = IPv4 | IPv6

record network =
  version :: ipver
  network_address :: nat
  scope_id :: "string option"
  prefixlen :: nat

definition max_prefixlen :: "ipver \<Rightarrow> nat" where
  "max_prefixlen v = (case v of IPv4 \<Rightarrow> 32 | IPv6 \<Rightarrow> 128)"

definition ALL_ONES :: "ipver \<Rightarrow> nat" where
  "ALL_ONES v = 2 ^ max_prefixlen v - 1"

text \<open>\<open>_ip_int_from_prefix\<close>: \<open>cls._ALL_ONES ^ (cls._ALL_ONES >> prefixlen)\<close>.\<close>

definition ip_int_from_prefix :: "ipver \<Rightarrow> nat \<Rightarrow> nat" where
  "ip_int_from_prefix v p = ALL_ONES v XOR drop_bit p (ALL_ONES v)"

definition netmask :: "network \<Rightarrow> nat" where
  "netmask n = ip_int_from_prefix (version n) (prefixlen n)"

text \<open>
  What every network object of the standard library satisfies: the prefix
  length is at most the address width and the address fits the width.
\<close>

definition valid_network :: "network \<Rightarrow> bool" where
  "valid_network n \<longleftrightarrow>
     prefixlen n \<le> max_prefixlen (version n) \<and>
     network_address n < 2 ^ max_prefixlen (version n)"

text \<open>
  \<open>_BaseNetwork.__lt__\<close>: a \<open>TypeError\<close> for networks of different versions;
  when the address objects differ (in integer or in scope id) the integers
  decide; then the netmask (which grows strictly with the prefix length).
\<close>

definition network_lt :: "network \<Rightarrow> network \<Rightarrow> error + bool" where
  "network_lt a b =
     (if version a \<noteq> version b then Inl TypeError
      else if (network_address a, scope_id a) \<noteq> (network_address b, scope_id b)
        then Inr (network_address a < network_address b)
      else if prefixlen a \<noteq> prefixlen b then Inr (prefixlen a < prefixlen b)
      else Inr False)"

text \<open>
  \<open>_BaseNetwork.supernet(new_prefix=p)\<close>: a /0 network is its own supernet, a
  longer new prefix is a \<open>ValueError\<close>, otherwise the address is masked with
  the netmask shifted left by the difference of the prefix lengths; the new
  network is built from that integer, so it has no scope id.
\<close>

definition supernet :: "network \<Rightarrow> nat \<Rightarrow> error + network" where
  "supernet n new_prefix =
     (if prefixlen n = 0 then Inr n
      else if new_prefix > prefixlen n then Inl ValueError
      else Inr \<lparr> version = version n,
                 network_address =
                   network_address n AND push_bit (prefixlen n - new_prefix) (netmask n),
                 scope_id = None,
                 prefixlen = new_prefix \<rparr>)"

section \<open>Prefix records (\<open>awsipprefix.py\<close>)\<close>

text \<open>
  An \<open>AWSIPv4Prefix\<close> or \<open>AWSIPv6Prefix\<close> object. The subclass constructors
  check that the network has the class's version, so the class of a record is
  the version of its network.
\<close>

record AWSIPPrefix =
  prefix :: network
  region :: string
  network_border_group :: string
  services :: "string list"

text \<open>
  The constructor arguments. A \<open>str\<close> given for the network is parsed by
  the standard library's \<open>ip_network\<close>; it is represented by the outcome of
  that call (\<open>None\<close> when \<open>ip_network\<close> raises \<open>ValueError\<close>). The services
  are a \<open>str\<close>, a \<open>tuple\<close> of strings, or another iterable (a list, a set),
  which \<open>check_type\<close> refuses.
\<close>

datatype prefix_arg = PrefixStr "network option" | PrefixNetwork network

datatype services_arg =
  ServicesStr string | ServicesTuple "string list" | ServicesIterable "string list"

text \<open>\<open>AWSIPPrefix.__init__\<close>.\<close>

definition AWSIPPrefix_init ::
  "prefix_arg \<Rightarrow> string \<Rightarrow> string \<Rightarrow> services_arg \<Rightarrow> error + AWSIPPrefix" where
  "AWSIPPrefix_init prefix_a region_a network_border_group_a services_a =
     (case services_a of
        ServicesIterable _ \<Rightarrow> Inl TypeError
      | _ \<Rightarrow>
        (case (case prefix_a of PrefixStr r \<Rightarrow> r | PrefixNetwork n \<Rightarrow> Some n) of
           None \<Rightarrow> Inl ValueError
         | Some n \<Rightarrow>
             Inr \<lparr> prefix = n,
                   region = region_a,
                   network_border_group = network_border_group_a,
                   services =
                     (case services_a of
                        ServicesStr s \<Rightarrow> [s]
                      | ServicesTuple t \<Rightarrow> sort t
                      | ServicesIterable t \<Rightarrow> sort t) \<rparr>))"

text \<open>
  \<open>AWSIPv4Prefix.__init__\<close> and \<open>AWSIPv6Prefix.__init__\<close>: the base
  constructor, then the check of the network's class.
\<close>

definition AWSIPvPrefix_init ::
  "ipver \<Rightarrow> prefix_arg \<Rightarrow> string \<Rightarrow> string \<Rightarrow> services_arg \<Rightarrow> error + AWSIPPrefix" where
  "AWSIPvPrefix_init v prefix_a region_a network_border_group_a services_a =
     (case AWSIPPrefix_init prefix_a region_a network_border_group_a services_a of
        Inl e \<Rightarrow> Inl e
      | Inr p \<Rightarrow> if version (prefix p) = v then Inr p else Inl TypeError)"

abbreviation AWSIPv4Prefix_init ::
  "prefix_arg \<Rightarrow> string \<Rightarrow> string \<Rightarrow> services_arg \<Rightarrow> error + AWSIPPrefix" where
  "AWSIPv4Prefix_init \<equiv> AWSIPvPrefix_init IPv4"

abbreviation AWSIPv6Prefix_init ::
  "prefix_arg \<Rightarrow> string \<Rightarrow> string \<Rightarrow> services_arg \<Rightarrow> error + AWSIPPrefix" where
  "AWSIPv6Prefix_init \<equiv> AWSIPvPrefix_init IPv6"

text \<open>
  \<open>AWSIPPrefix.__lt__\<close> against another record: version, network address,
  prefix length, region, network border group, services; strings and tuples
  of strings compare lexicographically. The test \<open>!=\<close> on the address objects
  looks at integer and scope id, the comparison \<open><\<close> that follows at the
  integers only.
\<close>

definition version_number :: "ipver \<Rightarrow> nat" where
  "version_number v = (case v of IPv4 \<Rightarrow> 4 | IPv6 \<Rightarrow> 6)"

definition AWSIPPrefix_lt :: "AWSIPPrefix \<Rightarrow> AWSIPPrefix \<Rightarrow> bool" where
  "AWSIPPrefix_lt self other =
     (if version (prefix self) \<noteq> version (prefix other)
        then version_number (version (prefix self)) < version_number (version (prefix other))
      else if (network_address (prefix self), scope_id (prefix self)) \<noteq>
              (network_address (prefix other), scope_id (prefix other))
        then network_address (prefix self) < network_address (prefix other)
      else if prefixlen (prefix self) \<noteq> prefixlen (prefix other)
        then prefixlen (prefix self) < prefixlen (prefix other)
      else if region self \<noteq> region other then region self < region other
      else if network_border_group self \<noteq> network_border_group other
        then network_border_group self < network_border_group other
      else if services self \<noteq> services other then services self < services other
      else False)"

text \<open>
  \<open>AWSIPPrefix.__lt__\<close> against a bare network: the comparison of the
  standard library, unless the record's network equals the other one.
\<close>

definition AWSIPPrefix_lt_network :: "AWSIPPrefix \<Rightarrow> network \<Rightarrow> error + bool" where
  "AWSIPPrefix_lt_network self other =
     (if prefix self \<noteq> other then network_lt (prefix self) other else Inr False)"

text \<open>
  \<open>combine_prefixes\<close>: the assertion on the number of records, the type
  checks against the class of the first record, the check that network,
  region and border group agree, then a new record of the first one's class
  with the sorted set of all services.
\<close>

definition combine_prefixes :: "AWSIPPrefix list \<Rightarrow> error + AWSIPPrefix" where
  "combine_prefixes prefixes =
     (if \<not> length prefixes > 1 then Inl AssertionError
      else
        let first = prefixes ! 0 in
        if \<not> list_all (\<lambda>p. version (prefix p) = version (prefix first)) (tl prefixes)
          then Inl TypeError
        else if \<not> list_all
            (\<lambda>p. (prefix p, region p, network_border_group p) =
                  (prefix first, region first, network_border_group first))
            (tl prefixes)
          then Inl ValueError
        else
          AWSIPvPrefix_init (version (prefix first))
            (PrefixNetwork (prefix first)) (region first) (network_border_group first)
            (ServicesTuple (sort (remdups (concat (map services prefixes))))))"

section \<open>Utility functions (\<open>utils.py\<close>)\<close>

text \<open>
  An optional filter argument: \<open>None\<close>, one value (a \<open>str\<close> or an \<open>int\<close>),
  or an iterable of values.
\<close>

datatype 'a filter_arg = Unset | Single 'a | Many "'a list"

text \<open>\<open>normalize_to_set\<close>.\<close>

definition normalize_to_set :: "'a filter_arg \<Rightarrow> 'a set" where
  "normalize_to_set v =
     (case v of Unset \<Rightarrow> {} | Single x \<Rightarrow> {x} | Many xs \<Rightarrow> set xs)"

text \<open>\<open>validate_values\<close>.\<close>

definition validate_values :: "'a set \<Rightarrow> 'a set \<Rightarrow> error + unit" where
  "validate_values vals valid_values =
     (if \<not> vals \<subseteq> valid_values then Inl ValueError else Inr ())"

text \<open>Python's \<open>a or b\<close> on sets: an empty set is false.\<close>

definition set_or :: "'a set \<Rightarrow> 'a set \<Rightarrow> 'a set" where
  "set_or a b = (if a = {} then b else a)"

text \<open>\<open>range(n, 0, -1)\<close>: \<open>n, n - 1, \<dots>, 1\<close>.\<close>

fun range_down :: "nat \<Rightarrow> nat list" where
  "range_down 0 = []"
| "range_down (Suc k) = Suc k # range_down k"

text \<open>
  \<open>supernets\<close>: the generator yields, for each prefix length from the
  subnet's own down to 1, what \<open>supernet\<close> returns or raises.
\<close>

definition supernets :: "network \<Rightarrow> (error + network) list" where
  "supernets subnet = map (\<lambda>prefix_length. supernet subnet prefix_length)
                          (range_down (prefixlen subnet))"

section \<open>Prefix collections (\<open>awsipprefixes.py\<close>)\<close>

text \<open>A \<open>datetime\<close> is only stored and handed back; it is modelled by its POSIX time.\<close>

type_synonym datetime = int

record AWSIPPrefixes =
  sync_token :: "string option"
  create_date :: "datetime option"
  ipv4_prefixes :: "AWSIPPrefix list"
  ipv6_prefixes :: "AWSIPPrefix list"
  md5 :: "string option"

text \<open>
  \<open>list.sort()\<close> with the records' \<open>__lt__\<close>: a stable sort that compares
  with \<open><\<close> only. For a strict weak order the result of a stable sort is
  determined; it is computed here by stable insertion. On records whose
  networks have scope ids \<open>__lt__\<close> is not a strict weak order, and of the
  result of \<open>list.sort()\<close> only that it is a permutation is known; what is
  proved about the order of a sorted sequence is proved for records without
  scope ids or does not depend on the order.
\<close>

fun insort_lt :: "('a \<Rightarrow> 'a \<Rightarrow> bool) \<Rightarrow> 'a \<Rightarrow> 'a list \<Rightarrow> 'a list" where
  "insort_lt lt x [] = [x]"
| "insort_lt lt x (y # ys) = (if lt y x then y # insort_lt lt x ys else x # y # ys)"

definition sort_lt :: "('a \<Rightarrow> 'a \<Rightarrow> bool) \<Rightarrow> 'a list \<Rightarrow> 'a list" where
  "sort_lt lt xs = foldr (insort_lt lt) xs []"

text \<open>
  The \<open>defaultdict(list)\<close> of \<open>_process_prefixes\<close>, as an association list
  in insertion order of the keys: \<open>collect_duplicates[prefix.prefix].append(prefix)\<close>.
\<close>

fun dict_append ::
  "(network \<times> AWSIPPrefix list) list \<Rightarrow> AWSIPPrefix \<Rightarrow> (network \<times> AWSIPPrefix list) list" where
  "dict_append [] p = [(prefix p, [p])]"
| "dict_append ((k, ps) # rest) p =
     (if k = prefix p then (k, ps @ [p]) # rest else (k, ps) # dict_append rest p)"

definition collect_duplicates :: "AWSIPPrefix list \<Rightarrow> (network \<times> AWSIPPrefix list) list" where
  "collect_duplicates prefixes = foldl dict_append [] prefixes"

text \<open>The loop over \<open>collect_duplicates.values()\<close>.\<close>

fun deduplicate :: "AWSIPPrefix list list \<Rightarrow> error + AWSIPPrefix list" where
  "deduplicate [] = Inr []"
| "deduplicate (prefixes # rest) =
     (case (if length prefixes = 1 then Inr (prefixes ! 0) else combine_prefixes prefixes) of
        Inl e \<Rightarrow> Inl e
      | Inr p \<Rightarrow>
          (case deduplicate rest of
             Inl e \<Rightarrow> Inl e
           | Inr deduplicated_prefixes \<Rightarrow> Inr (p # deduplicated_prefixes)))"

text \<open>\<open>AWSIPPrefixes._process_prefixes\<close>.\<close>

definition process_prefixes :: "AWSIPPrefix list \<Rightarrow> error + AWSIPPrefix list" where
  "process_prefixes prefixes =
     (case deduplicate (map snd (collect_duplicates prefixes)) of
        Inl e \<Rightarrow> Inl e
      | Inr deduplicated_prefixes \<Rightarrow> Inr (sort_lt AWSIPPrefix_lt deduplicated_prefixes))"

text \<open>\<open>AWSIPPrefixes.__init__\<close>.\<close>

definition AWSIPPrefixes_init ::
  "string option \<Rightarrow> datetime option \<Rightarrow> AWSIPPrefix list \<Rightarrow> AWSIPPrefix list \<Rightarrow>
   string option \<Rightarrow> error + AWSIPPrefixes" where
  "AWSIPPrefixes_init sync_token_a create_date_a ipv4_a ipv6_a md5_a =
     (case process_prefixes ipv4_a of
        Inl e \<Rightarrow> Inl e
      | Inr v4 \<Rightarrow>
          (case process_prefixes ipv6_a of
             Inl e \<Rightarrow> Inl e
           | Inr v6 \<Rightarrow>
               Inr \<lparr> sync_token = sync_token_a, create_date = create_date_a,
                     ipv4_prefixes = v4, ipv6_prefixes = v6, md5 = md5_a \<rparr>))"

text \<open>
  \<open>bisect_left(a, x)\<close> of the standard library: the loop asks \<open>a[mid] < x\<close>,
  here the record's \<open>__lt__\<close> against a network, which may raise.
\<close>

function bisect_left_loop ::
  "AWSIPPrefix list \<Rightarrow> network \<Rightarrow> nat \<Rightarrow> nat \<Rightarrow> error + nat" where
  "bisect_left_loop a x lo hi =
     (if lo < hi then
        (let mid = (lo + hi) div 2 in
         case AWSIPPrefix_lt_network (a ! mid) x of
           Inl e \<Rightarrow> Inl e
         | Inr True \<Rightarrow> bisect_left_loop a x (mid + 1) hi
         | Inr False \<Rightarrow> bisect_left_loop a x lo mid)
      else Inr lo)"
  by pat_completeness auto
termination
  by (relation "measure (\<lambda>(a, x, lo, hi). hi - lo)") auto

definition bisect_left :: "AWSIPPrefix list \<Rightarrow> network \<Rightarrow> error + nat" where
  "bisect_left a x = bisect_left_loop a x 0 (length a)"

text \<open>
  \<open>AWSIPPrefixes._get_prefix\<close> on a network object (its callers in the
  lookups pass the networks that \<open>supernets\<close> yields).
\<close>

definition get_prefix :: "AWSIPPrefixes \<Rightarrow> network \<Rightarrow> error + AWSIPPrefix option" where
  "get_prefix self prefix_a =
     (let prefixes_collection =
            (case version prefix_a of
               IPv4 \<Rightarrow> ipv4_prefixes self
             | IPv6 \<Rightarrow> ipv6_prefixes self)
      in case bisect_left prefixes_collection prefix_a of
           Inl e \<Rightarrow> Inl e
         | Inr index \<Rightarrow>
             if index \<noteq> length prefixes_collection \<and>
                prefix (prefixes_collection ! index) = prefix_a
             then Inr (Some (prefixes_collection ! index))
             else Inr None)"

text \<open>
  The items a lookup accepts. A \<open>str\<close> is represented by the outcome of
  \<open>ip_network(item, strict=False)\<close> on it; an address object by version,
  integer and scope id; an interface object by version, integer, scope id and
  prefix length.
\<close>

datatype item =
  ItemStr "network option"
| ItemAddress ipver nat "string option"
| ItemInterface ipver nat "string option" nat
| ItemNetwork network
| ItemPrefix AWSIPPrefix

text \<open>
  The first lines of \<open>__getitem__\<close> and \<open>get_prefix_and_supernets\<close>: a
  record gives its network, anything else goes through
  \<open>ip_network(item, strict=False)\<close>, which makes a host address a /32 or /128
  network and clears the host bits of an interface. When host bits are
  cleared the address is rebuilt from the integer and loses its scope id.
\<close>

definition item_network :: "item \<Rightarrow> error + network" where
  "item_network i =
     (case i of
        ItemPrefix p \<Rightarrow> Inr (prefix p)
      | ItemStr r \<Rightarrow> (case r of None \<Rightarrow> Inl ValueError | Some n \<Rightarrow> Inr n)
      | ItemAddress v a z \<Rightarrow>
          Inr \<lparr> version = v, network_address = a, scope_id = z,
                prefixlen = max_prefixlen v \<rparr>
      | ItemInterface v a z l \<Rightarrow>
          Inr \<lparr> version = v, network_address = a AND ip_int_from_prefix v l,
                scope_id = (if a AND ip_int_from_prefix v l \<noteq> a then None else z),
                prefixlen = l \<rparr>
      | ItemNetwork n \<Rightarrow> Inr n)"

text \<open>The loop of \<open>__getitem__\<close> over the generator, and \<open>__getitem__\<close>.\<close>

fun getitem_loop :: "AWSIPPrefixes \<Rightarrow> (error + network) list \<Rightarrow> error + AWSIPPrefix" where
  "getitem_loop self [] = Inl KeyError"
| "getitem_loop self (s # rest) =
     (case s of
        Inl e \<Rightarrow> Inl e
      | Inr supernet_n \<Rightarrow>
          (case get_prefix self supernet_n of
             Inl e \<Rightarrow> Inl e
           | Inr (Some supernet_prefix) \<Rightarrow> Inr supernet_prefix
           | Inr None \<Rightarrow> getitem_loop self rest))"

definition getitem :: "AWSIPPrefixes \<Rightarrow> item \<Rightarrow> error + AWSIPPrefix" where
  "getitem self i =
     (case item_network i of
        Inl e \<Rightarrow> Inl e
      | Inr n \<Rightarrow> getitem_loop self (supernets n))"

text \<open>
  The loop of \<open>get_prefix_and_supernets\<close>, which appends every hit, and the
  method: the sorted tuple of the hits, or the caller's default (\<open>None\<close> when
  the caller gives none) when there is no hit.
\<close>

fun supernets_loop :: "AWSIPPrefixes \<Rightarrow> (error + network) list \<Rightarrow> error + AWSIPPrefix list" where
  "supernets_loop self [] = Inr []"
| "supernets_loop self (s # rest) =
     (case s of
        Inl e \<Rightarrow> Inl e
      | Inr supernet_n \<Rightarrow>
          (case get_prefix self supernet_n of
             Inl e \<Rightarrow> Inl e
           | Inr r \<Rightarrow>
               (case supernets_loop self rest of
                  Inl e \<Rightarrow> Inl e
                | Inr prefixes \<Rightarrow>
                    Inr (case r of None \<Rightarrow> prefixes | Some p \<Rightarrow> p # prefixes))))"

definition get_prefix_and_supernets ::
  "AWSIPPrefixes \<Rightarrow> item \<Rightarrow> 'd \<Rightarrow> error + (AWSIPPrefix list + 'd)" where
  "get_prefix_and_supernets self key default_a =
     (case item_network key of
        Inl e \<Rightarrow> Inl e
      | Inr n \<Rightarrow>
          (case supernets_loop self (supernets n) of
             Inl e \<Rightarrow> Inl e
           | Inr prefixes \<Rightarrow>
               if prefixes \<noteq> [] then Inr (Inl (sort_lt AWSIPPrefix_lt prefixes))
               else Inr (Inr default_a)))"

text \<open>
  \<open>__iter__\<close> and the properties \<open>regions\<close>, \<open>network_border_groups\<close> and
  \<open>services\<close> (cached on first use; the collection never changes, so the
  cache holds what is computed here).
\<close>

definition iter :: "AWSIPPrefixes \<Rightarrow> AWSIPPrefix list" where
  "iter self = ipv4_prefixes self @ ipv6_prefixes self"

definition AWSIPPrefixes_regions :: "AWSIPPrefixes \<Rightarrow> string set" where
  "AWSIPPrefixes_regions self = set (map region (iter self))"

definition AWSIPPrefixes_network_border_groups :: "AWSIPPrefixes \<Rightarrow> string set" where
  "AWSIPPrefixes_network_border_groups self = set (map network_border_group (iter self))"

definition AWSIPPrefixes_services :: "AWSIPPrefixes \<Rightarrow> string set" where
  "AWSIPPrefixes_services self = set (concat (map services (iter self)))"

text \<open>The condition of the two generator expressions of \<open>filter\<close>.\<close>

definition selected :: "string set \<Rightarrow> string set \<Rightarrow> string set \<Rightarrow> AWSIPPrefix \<Rightarrow> bool" where
  "selected regions_s network_border_groups_s services_s p \<longleftrightarrow>
     region p \<in> regions_s \<and>
     network_border_group p \<in> network_border_groups_s \<and>
     set (services p) \<inter> services_s \<noteq> {}"

text \<open>\<open>AWSIPPrefixes.filter\<close>.\<close>

definition AWSIPPrefixes_filter ::
  "AWSIPPrefixes \<Rightarrow> string filter_arg \<Rightarrow> string filter_arg \<Rightarrow> string filter_arg \<Rightarrow>
   int filter_arg \<Rightarrow> error + AWSIPPrefixes" where
  "AWSIPPrefixes_filter self regions_a network_border_groups_a services_a versions_a =
     (let regions_s = set_or (normalize_to_set regions_a) (AWSIPPrefixes_regions self) in
      case validate_values regions_s (AWSIPPrefixes_regions self) of
        Inl e \<Rightarrow> Inl e
      | Inr _ \<Rightarrow>
     (let network_border_groups_s =
            set_or (normalize_to_set network_border_groups_a)
                   (AWSIPPrefixes_network_border_groups self) in
      case validate_values network_border_groups_s (AWSIPPrefixes_network_border_groups self) of
        Inl e \<Rightarrow> Inl e
      | Inr _ \<Rightarrow>
     (let services_s = set_or (normalize_to_set services_a) (AWSIPPrefixes_services self) in
      case validate_values services_s (AWSIPPrefixes_services self) of
        Inl e \<Rightarrow> Inl e
      | Inr _ \<Rightarrow>
     (let versions_s = set_or (normalize_to_set versions_a) {4, 6} in
      case validate_values versions_s {4, 6} of
        Inl e \<Rightarrow> Inl e
      | Inr _ \<Rightarrow>
          AWSIPPrefixes_init (sync_token self) (create_date self)
            (if 4 \<notin> versions_s then []
             else filter (selected regions_s network_border_groups_s services_s)
                         (ipv4_prefixes self))
            (if 6 \<notin> versions_s then []
             else filter (selected regions_s network_border_groups_s services_s)
                         (ipv6_prefixes self))
            None))))"

section \<open>Well-formed inputs\<close>

text \<open>
  The annotations \<open>Tuple[AWSIPv4Prefix, ...]\<close> and \<open>Tuple[AWSIPv6Prefix, ...]\<close>
  of the two stored sequences.
\<close>

definition well_typed :: "AWSIPPrefixes \<Rightarrow> bool" where
  "well_typed self \<longleftrightarrow>
     list_all (\<lambda>p. version (prefix p) = IPv4) (ipv4_prefixes self) \<and>
     list_all (\<lambda>p. version (prefix p) = IPv6) (ipv6_prefixes self)"

text \<open>
  An item made of objects of the standard library: integers of addresses fit
  the address width, prefix lengths are at most the width, networks are valid.
\<close>

definition valid_item :: "item \<Rightarrow> bool" where
  "valid_item i =
     (case i of
        ItemPrefix p \<Rightarrow> valid_network (prefix p)
      | ItemStr r \<Rightarrow> (case r of None \<Rightarrow> True | Some n \<Rightarrow> valid_network n)
      | ItemAddress v a z \<Rightarrow> a < 2 ^ max_prefixlen v
      | ItemInterface v a z l \<Rightarrow> a < 2 ^ max_prefixlen v \<and> l \<le> max_prefixlen v
      | ItemNetwork n \<Rightarrow> valid_network n)"

text \<open>
  The tuple that \<open>AWSIPPrefix.__lt__\<close> compares lexicographically when the
  networks of the two records have the same scope id.
\<close>

definition sort_tuple :: "AWSIPPrefix \<Rightarrow> nat \<times> nat \<times> nat \<times> string \<times> string \<times> string list" where
  "sort_tuple p =
     (version_number (version (prefix p)), network_address (prefix p), prefixlen (prefix p),
      region p, network_border_group p, services p)"

text \<open>What the dictionary of \<open>_process_prefixes\<close> satisfies while it is filled.\<close>

definition dict_inv :: "(network \<times> AWSIPPrefix list) list \<Rightarrow> bool" where
  "dict_inv d \<longleftrightarrow> distinct (map fst d) \<and> (\<forall>(k, ps)\<in>set d. ps \<noteq> [] \<and> (\<forall>p\<in>set ps. prefix p = k))"

section \<open>Example data\<close>

text \<open>
  The networks 10.0.0.0/8, 10.0.0.0/16, 3.5.140.0/22, 0.0.0.0/0 and
  2a05:d070:e000::/40, records on them, and two collections.
\<close>

definition net_10_8 :: network where
  "net_10_8 = \<lparr> version = IPv4, network_address = 167772160, scope_id = None, prefixlen = 8 \<rparr>"

definition net_10_0_16 :: network where
  "net_10_0_16 = \<lparr> version = IPv4, network_address = 167772160, scope_id = None, prefixlen = 16 \<rparr>"

definition net_3_5_140_22 :: network where
  "net_3_5_140_22 = \<lparr> version = IPv4, network_address = 50695168, scope_id = None, prefixlen = 22 \<rparr>"

definition net_default_route :: network where
  "net_default_route = \<lparr> version = IPv4, network_address = 0, scope_id = None, prefixlen = 0 \<rparr>"

definition net_v6_40 :: network where
  "net_v6_40 = \<lparr> version = IPv6,
                  network_address = 55857764991335544145137835912961458176,
                  scope_id = None, prefixlen = 40 \<rparr>"

definition rec_10_8 :: AWSIPPrefix where
  "rec_10_8 = \<lparr> prefix = net_10_8, region = ''R1'', network_border_group = ''G1'',
                 services = [''AMAZON''] \<rparr>"

definition rec_10_0_16 :: AWSIPPrefix where
  "rec_10_0_16 = \<lparr> prefix = net_10_0_16, region = ''R1'', network_border_group = ''G1'',
                    services = [''EC2''] \<rparr>"

definition rec_ec2 :: AWSIPPrefix where
  "rec_ec2 = \<lparr> prefix = net_3_5_140_22, region = ''ap-northeast-2'',
                network_border_group = ''ap-northeast-2'', services = [''EC2''] \<rparr>"

definition rec_s3 :: AWSIPPrefix where
  "rec_s3 = \<lparr> prefix = net_3_5_140_22, region = ''ap-northeast-2'',
               network_border_group = ''ap-northeast-2'', services = [''S3''] \<rparr>"

definition rec_ec2_s3 :: AWSIPPrefix where
  "rec_ec2_s3 = \<lparr> prefix = net_3_5_140_22, region = ''ap-northeast-2'',
                   network_border_group = ''ap-northeast-2'', services = [''EC2'', ''S3''] \<rparr>"

definition rec_default_route :: AWSIPPrefix where
  "rec_default_route = \<lparr> prefix = net_default_route, region = ''GLOBAL'',
                          network_border_group = ''GLOBAL'', services = [''AMAZON''] \<rparr>"

definition rec_v6 :: AWSIPPrefix where
  "rec_v6 = \<lparr> prefix = net_v6_40, region = ''me-south-1'',
               network_border_group = ''me-south-1'', services = [''EC2''] \<rparr>"

definition ranges_10 :: AWSIPPrefixes where
  "ranges_10 = \<lparr> sync_token = Some ''1'', create_date = Some 0,
                  ipv4_prefixes = [rec_10_8, rec_10_0_16], ipv6_prefixes = [],
                  md5 = Some ''d41d'' \<rparr>"

definition ranges_default_route :: AWSIPPrefixes where
  "ranges_default_route = \<lparr> sync_token = None, create_date = None,
                             ipv4_prefixes = [rec_default_route], ipv6_prefixes = [],
                             md5 = None \<rparr>"



text \<open>
  The network of prefix length \<open>l\<close> around a network: the low bits of the
  address below the prefix are cleared, and there is no scope id.
\<close>

definition truncate_network :: "network \<Rightarrow> nat \<Rightarrow> network" where
  "truncate_network n l =
     \<lparr> version = version n,
       network_address =
         push_bit (max_prefixlen (version n) - l)
           (drop_bit (max_prefixlen (version n) - l) (network_address n)),
       scope_id = None,
       prefixlen = l \<rparr>"

text \<open>The network 11.0.0.0/8, which no record of the example collections contains.\<close>

definition net_11_8 :: network where
  "net_11_8 = \<lparr> version = IPv4, network_address = 184549376, scope_id = None, prefixlen = 8 \<rparr>"

text \<open>The pair that the comparison of two networks of one version looks at.\<close>

definition network_key :: "network \<Rightarrow> nat \<times> nat" where
  "network_key n = (network_address n, prefixlen n)"

text \<open>
  The longest-prefix match by linear search, to compare the lookups with: the
  stored record with a given network, and the first record found for the
  networks of length \<open>prefixlen n\<close> down to 1 around \<open>n\<close>.
\<close>

definition stored_record :: "AWSIPPrefixes \<Rightarrow> network \<Rightarrow> AWSIPPrefix option" where
  "stored_record self n = find (\<lambda>r. prefix r = n) (iter self)"

fun first_hit :: "('a \<Rightarrow> 'b option) \<Rightarrow> 'a list \<Rightarrow> 'b option" where
  "first_hit g [] = None"
| "first_hit g (x # xs) = (case g x of Some y \<Rightarrow> Some y | None \<Rightarrow> first_hit g xs)"

definition longest_match :: "AWSIPPrefixes \<Rightarrow> network \<Rightarrow> AWSIPPrefix option" where
  "longest_match self n =
     first_hit (\<lambda>l. stored_record self (truncate_network n l)) (range_down (prefixlen n))"

text \<open>A record on a network without scope id.\<close>

definition unscoped :: "AWSIPPrefix \<Rightarrow> bool" where
  "unscoped p \<longleftrightarrow> scope_id (prefix p) = None"

text \<open>
  Two records on the networks \<open>fe80::%a/64\<close> and \<open>fe80::%b/64\<close>, which differ
  in the scope id only, and a collection whose sequence of IPv4 records holds
  an IPv6 record.
\<close>

definition rec_scope_a :: AWSIPPrefix where
  "rec_scope_a =
     \<lparr> prefix = \<lparr> version = IPv6, network_address = 338288524927261089654018896841347694592,
                   scope_id = Some ''a'', prefixlen = 64 \<rparr>,
       region = ''GLOBAL'', network_border_group = ''GLOBAL'', services = [''AMAZON''] \<rparr>"

definition rec_scope_b :: AWSIPPrefix where
  "rec_scope_b =
     \<lparr> prefix = \<lparr> version = IPv6, network_address = 338288524927261089654018896841347694592,
                   scope_id = Some ''b'', prefixlen = 64 \<rparr>,
       region = ''GLOBAL'', network_border_group = ''GLOBAL'', services = [''AMAZON''] \<rparr>"

definition ranges_mistyped :: AWSIPPrefixes where
  "ranges_mistyped = \<lparr> sync_token = None, create_date = None,
                        ipv4_prefixes = [rec_v6], ipv6_prefixes = [], md5 = None \<rparr>"

section \<open>The order of the records and the sort\<close>

lemma version_number_inj: "version_number a = version_number b \<longleftrightarrow> a = b"
  by (cases a; cases b) (simp_all add: version_number_def)

lemma AWSIPPrefix_lt_sort_tuple:
  assumes "scope_id (prefix a) = scope_id (prefix b)"
  shows "AWSIPPrefix_lt a b \<longleftrightarrow> sort_tuple a < sort_tuple b"
  using assms
  by (cases "version (prefix a)"; cases "version (prefix b)")
     (auto simp: AWSIPPrefix_lt_def sort_tuple_def version_number_def)

lemma sort_tuple_inj:
  assumes "sort_tuple a = sort_tuple b" and "scope_id (prefix a) = scope_id (prefix b)"
  shows "a = b"
  using assms
  by (cases a; cases b) (auto simp: sort_tuple_def version_number_inj network.equality)

lemma AWSIPPrefix_lt_asym: "AWSIPPrefix_lt a b \<Longrightarrow> \<not> AWSIPPrefix_lt b a"
  by (auto simp: AWSIPPrefix_lt_def split: if_splits)

lemma AWSIPPrefix_lt_irrefl: "\<not> AWSIPPrefix_lt a a"
  by (simp add: AWSIPPrefix_lt_def)

lemma AWSIPPrefix_lt_strict_total_order:
  assumes "unscoped a" and "unscoped b" and "unscoped c"
  shows "AWSIPPrefix_lt a b \<Longrightarrow> AWSIPPrefix_lt b c \<Longrightarrow> AWSIPPrefix_lt a c"
    and "a \<noteq> b \<Longrightarrow> AWSIPPrefix_lt a b \<or> AWSIPPrefix_lt b a"
  using assms sort_tuple_inj[of a b]
  by (auto simp: AWSIPPrefix_lt_sort_tuple unscoped_def not_less order.order_iff_strict)

lemma set_insort_lt: "set (insort_lt lt x ys) = insert x (set ys)"
  by (induction ys) auto

lemma mset_insort_lt: "mset (insort_lt lt x ys) = add_mset x (mset ys)"
  by (induction ys) auto

lemma mset_sort_lt: "mset (sort_lt lt xs) = mset xs"
  by (induction xs) (auto simp: sort_lt_def mset_insort_lt)

lemma set_sort_lt: "set (sort_lt lt xs) = set xs"
  using mset_sort_lt[of lt xs] by (metis set_mset_mset)

lemma sorted_insort_lt:
  assumes "sorted (map sort_tuple ys)" and "unscoped x" and "\<forall>y\<in>set ys. unscoped y"
  shows "sorted (map sort_tuple (insort_lt AWSIPPrefix_lt x ys))"
  using assms
  by (induction ys) (auto simp: set_insort_lt AWSIPPrefix_lt_sort_tuple unscoped_def)

lemma sorted_sort_lt:
  assumes "\<forall>x\<in>set xs. unscoped x"
  shows "sorted (map sort_tuple (sort_lt AWSIPPrefix_lt xs))"
  using assms
proof (induction xs)
  case Nil
  then show ?case by (simp add: sort_lt_def)
next
  case (Cons x xs)
  have "sorted (map sort_tuple (sort_lt AWSIPPrefix_lt xs))" using Cons by simp
  moreover have "\<forall>y\<in>set (sort_lt AWSIPPrefix_lt xs). unscoped y"
    using Cons.prems by (simp add: set_sort_lt)
  ultimately have "sorted (map sort_tuple (insort_lt AWSIPPrefix_lt x (sort_lt AWSIPPrefix_lt xs)))"
    using Cons.prems by (intro sorted_insort_lt) simp_all
  then show ?case by (simp add: sort_lt_def)
qed

lemma distinct_map_sort_lt: "distinct (map f (sort_lt lt xs)) \<longleftrightarrow> distinct (map f xs)"
proof -
  have "mset (map f (sort_lt lt xs)) = mset (map f xs)"
    by (simp add: mset_sort_lt)
  then show ?thesis by (rule mset_eq_imp_distinct_iff)
qed

lemma strictly_sorted_sort_lt:
  assumes "distinct (map prefix xs)" and "\<forall>x\<in>set xs. unscoped x"
  shows "sorted_wrt AWSIPPrefix_lt (sort_lt AWSIPPrefix_lt xs)"
proof -
  let ?ys = "sort_lt AWSIPPrefix_lt xs"
  have u: "\<forall>y\<in>set ?ys. unscoped y" using assms(2) by (simp add: set_sort_lt)
  have d: "distinct (map prefix ?ys)" using assms(1) by (simp add: distinct_map_sort_lt)
  have "distinct (map sort_tuple ?ys)"
    using d u by (auto simp: distinct_map inj_on_def unscoped_def dest: sort_tuple_inj)
  then have "sorted_wrt (<) (map sort_tuple ?ys)"
    using sorted_sort_lt[OF assms(2)] by (simp add: strict_sorted_iff)
  then have "sorted_wrt (\<lambda>x y. sort_tuple x < sort_tuple y) ?ys"
    by (simp add: sorted_wrt_map)
  then show ?thesis
    by (rule sorted_wrt_mono_rel[rotated])
       (use u in \<open>auto simp: AWSIPPrefix_lt_sort_tuple unscoped_def\<close>)
qed

lemma sort_lt_sorted_id: "sorted_wrt AWSIPPrefix_lt xs \<Longrightarrow> sort_lt AWSIPPrefix_lt xs = xs"
proof (induction xs)
  case Nil
  then show ?case by (simp add: sort_lt_def)
next
  case (Cons x xs)
  then have ih: "sort_lt AWSIPPrefix_lt xs = xs" by simp
  have "insort_lt AWSIPPrefix_lt x xs = x # xs"
  proof (cases xs)
    case Nil
    then show ?thesis by simp
  next
    case (Cons y ys)
    with Cons.prems have "AWSIPPrefix_lt x y" by simp
    then have "\<not> AWSIPPrefix_lt y x" by (rule AWSIPPrefix_lt_asym)
    then show ?thesis using Cons by simp
  qed
  then show ?case using ih by (simp add: sort_lt_def)
qed

section \<open>Construction of a collection\<close>

lemma fst_dict_append: "fst ` set (dict_append d p) = insert (prefix p) (fst ` set d)"
  by (induction d p rule: dict_append.induct) auto

lemma dict_inv_append: "dict_inv d \<Longrightarrow> dict_inv (dict_append d p)"
proof (induction d p rule: dict_append.induct)
  case (1 p)
  then show ?case by (simp add: dict_inv_def)
next
  case (2 k ps rest p)
  then have ih: "k \<noteq> prefix p \<Longrightarrow> dict_inv (dict_append rest p)"
    by (auto simp: dict_inv_def)
  show ?case
  proof (cases "k = prefix p")
    case True
    with "2.prems" show ?thesis by (auto simp: dict_inv_def)
  next
    case False
    with ih have "dict_inv (dict_append rest p)" by simp
    with False "2.prems" show ?thesis
      using fst_dict_append[of rest p] by (auto simp: dict_inv_def)
  qed
qed

lemma dict_inv_foldl: "dict_inv d \<Longrightarrow> dict_inv (foldl dict_append d ps)"
  by (induction ps arbitrary: d) (auto simp: dict_inv_append)

lemma dict_inv_collect: "dict_inv (collect_duplicates ps)"
  unfolding collect_duplicates_def by (rule dict_inv_foldl) (simp add: dict_inv_def)

lemma fst_foldl_dict_append:
  "fst ` set (foldl dict_append d ps) = fst ` set d \<union> prefix ` set ps"
  by (induction ps arbitrary: d) (auto simp: fst_dict_append)

lemma combine_prefixes_prefix:
  "combine_prefixes ps = Inr p \<Longrightarrow> prefix p = prefix (hd ps)"
  by (cases ps)
     (auto simp: combine_prefixes_def Let_def AWSIPvPrefix_init_def AWSIPPrefix_init_def
           split: if_splits)

lemma deduplicate_prefix:
  "deduplicate gs = Inr ds \<Longrightarrow> \<forall>g\<in>set gs. g \<noteq> [] \<Longrightarrow> map prefix ds = map (\<lambda>g. prefix (hd g)) gs"
proof (induction gs arbitrary: ds)
  case Nil
  then show ?case by simp
next
  case (Cons g gs)
  from Cons.prems(1) obtain p ds' where
    p: "(if length g = 1 then Inr (g ! 0) else combine_prefixes g) = Inr p" and
    ds': "deduplicate gs = Inr ds'" and ds: "ds = p # ds'"
    by (auto split: sum.splits)
  have "prefix p = prefix (hd g)"
  proof (cases "length g = 1")
    case True
    then show ?thesis using p Cons.prems(2) by (cases g) auto
  next
    case False
    then show ?thesis using p by (simp add: combine_prefixes_prefix)
  qed
  moreover have "map prefix ds' = map (\<lambda>g. prefix (hd g)) gs"
    using Cons.IH[OF ds'] Cons.prems(2) by simp
  ultimately show ?case using ds by simp
qed

lemma process_prefixes_networks:
  assumes "process_prefixes ps = Inr ys"
  shows "distinct (map prefix ys)" and "prefix ` set ys = prefix ` set ps"
proof -
  let ?d = "collect_duplicates ps"
  from assms obtain ds where ds: "deduplicate (map snd ?d) = Inr ds"
    and ys: "ys = sort_lt AWSIPPrefix_lt ds"
    by (auto simp: process_prefixes_def split: sum.splits)
  have inv: "dict_inv ?d" by (rule dict_inv_collect)
  then have ne: "\<forall>g\<in>set (map snd ?d). g \<noteq> []"
    by (auto simp: dict_inv_def)
  have "map prefix ds = map (\<lambda>g. prefix (hd g)) (map snd ?d)"
    by (rule deduplicate_prefix[OF ds ne])
  also have "\<dots> = map fst ?d"
    using inv by (auto simp: dict_inv_def)
  finally have eq: "map prefix ds = map fst ?d" .
  then have "distinct (map prefix ds)" using inv by (simp add: dict_inv_def)
  then show "distinct (map prefix ys)" using ys by (simp add: distinct_map_sort_lt)
  have "set (map prefix ds) = set (map fst ?d)" using eq by simp
  then have "prefix ` set ds = prefix ` set ps"
    using fst_foldl_dict_append[of "[]" ps] by (simp add: collect_duplicates_def)
  then show "prefix ` set ys = prefix ` set ps" using ys by (simp add: set_sort_lt)
qed

lemma process_prefixes_sorted:
  assumes "process_prefixes ps = Inr ys" and "list_all unscoped ps"
  shows "sorted_wrt AWSIPPrefix_lt ys"
proof -
  from assms(1) obtain ds where ys: "ys = sort_lt AWSIPPrefix_lt ds"
    by (auto simp: process_prefixes_def split: sum.splits)
  have "\<forall>n\<in>prefix ` set ps. scope_id n = None"
    using assms(2) by (auto simp: list_all_iff unscoped_def)
  then have "\<forall>n\<in>prefix ` set ys. scope_id n = None"
    using process_prefixes_networks(2)[OF assms(1)] by simp
  then have u: "\<forall>p\<in>set ds. unscoped p"
    using ys by (auto simp: unscoped_def set_sort_lt)
  have "distinct (map prefix ds)"
    using process_prefixes_networks(1)[OF assms(1)] ys by (simp add: distinct_map_sort_lt)
  then show ?thesis unfolding ys using u by (rule strictly_sorted_sort_lt)
qed

lemma process_prefixes_versions:
  assumes "process_prefixes ps = Inr ys" and "list_all (\<lambda>p. version (prefix p) = v) ps"
  shows "list_all (\<lambda>p. version (prefix p) = v) ys"
proof -
  have "\<forall>n\<in>prefix ` set ps. version n = v"
    using assms(2) by (auto simp: list_all_iff)
  then have "\<forall>n\<in>prefix ` set ys. version n = v"
    using process_prefixes_networks(2)[OF assms(1)] by simp
  then show ?thesis by (auto simp: list_all_iff)
qed

lemma init_parts:
  assumes "AWSIPPrefixes_init st cd v4 v6 h = Inr c"
  shows "process_prefixes v4 = Inr (ipv4_prefixes c)"
    and "process_prefixes v6 = Inr (ipv6_prefixes c)"
    and "sync_token c = st" and "create_date c = cd" and "md5 c = h"
  using assms by (auto simp: AWSIPPrefixes_init_def split: sum.splits)

lemma init_distinct:
  assumes "AWSIPPrefixes_init st cd v4 v6 h = Inr c"
  shows "distinct (map prefix (ipv4_prefixes c))" and "distinct (map prefix (ipv6_prefixes c))"
  using init_parts(1,2)[OF assms] by (simp_all add: process_prefixes_networks(1))

lemma init_sorted:
  assumes "AWSIPPrefixes_init st cd v4 v6 h = Inr c"
  shows "list_all unscoped v4 \<Longrightarrow> sorted_wrt AWSIPPrefix_lt (ipv4_prefixes c)"
    and "list_all unscoped v6 \<Longrightarrow> sorted_wrt AWSIPPrefix_lt (ipv6_prefixes c)"
  using init_parts(1,2)[OF assms] by (simp_all add: process_prefixes_sorted)

lemma init_unscoped:
  assumes "AWSIPPrefixes_init st cd v4 v6 h = Inr c"
    and "list_all unscoped v4" and "list_all unscoped v6"
  shows "list_all unscoped (iter c)"
proof -
  have "\<forall>n\<in>prefix ` set (ipv4_prefixes c). scope_id n = None"
    using process_prefixes_networks(2)[OF init_parts(1)[OF assms(1)]] assms(2)
    by (auto simp: list_all_iff unscoped_def)
  moreover have "\<forall>n\<in>prefix ` set (ipv6_prefixes c). scope_id n = None"
    using process_prefixes_networks(2)[OF init_parts(2)[OF assms(1)]] assms(3)
    by (auto simp: list_all_iff unscoped_def)
  ultimately show ?thesis by (auto simp: list_all_iff unscoped_def iter_def)
qed

lemma init_well_typed:
  assumes "AWSIPPrefixes_init st cd v4 v6 h = Inr c"
    and "list_all (\<lambda>p. version (prefix p) = IPv4) v4"
    and "list_all (\<lambda>p. version (prefix p) = IPv6) v6"
  shows "well_typed c"
  using process_prefixes_versions[OF init_parts(1)[OF assms(1)] assms(2)]
    process_prefixes_versions[OF init_parts(2)[OF assms(1)] assms(3)]
  by (simp add: well_typed_def)

section \<open>Evaluation on the example data\<close>

lemmas example_defs = net_10_8_def net_10_0_16_def net_3_5_140_22_def net_default_route_def
  net_v6_40_def rec_10_8_def rec_10_0_16_def rec_ec2_def rec_s3_def rec_ec2_s3_def
  rec_default_route_def rec_v6_def ranges_10_def ranges_default_route_def net_11_8_def
  rec_scope_a_def rec_scope_b_def ranges_mistyped_def

lemmas construction_defs = AWSIPPrefixes_init_def process_prefixes_def collect_duplicates_def
  sort_lt_def AWSIPPrefix_lt_def combine_prefixes_def AWSIPvPrefix_init_def AWSIPPrefix_init_def
  version_number_def

lemmas lookup_defs = getitem_def get_prefix_and_supernets_def item_network_def supernets_def
  supernet_def netmask_def ip_int_from_prefix_def ALL_ONES_def max_prefixlen_def
  get_prefix_def bisect_left_def AWSIPPrefix_lt_network_def network_lt_def

section \<open>The stored sequences are strictly sorted and free of duplicate networks\<close>

text \<open>
  Claim C3, as the code has it. For every collection constructed from any
  iterables of records, each stored sequence holds at most one record per
  network (networks compared as the objects are, scope id included). When
  the records given for a sequence have networks without scope id, that
  stored sequence is strictly sorted by the order of \<open>AWSIPPrefix.__lt__\<close>
  (IPv4 before IPv6, then network address, prefix length, region, network
  border group, services), which is a strict total order on such records, and
  so holds at most one record per address and prefix length.
\<close>

theorem init_strictly_sorted:
  assumes "AWSIPPrefixes_init st cd v4 v6 h = Inr c"
  shows "distinct (map prefix (ipv4_prefixes c)) \<and> distinct (map prefix (ipv6_prefixes c)) \<and>
         (list_all unscoped v4 \<longrightarrow>
            sorted_wrt AWSIPPrefix_lt (ipv4_prefixes c) \<and>
            distinct (map (\<lambda>p. (version (prefix p), network_address (prefix p),
                                 prefixlen (prefix p))) (ipv4_prefixes c))) \<and>
         (list_all unscoped v6 \<longrightarrow>
            sorted_wrt AWSIPPrefix_lt (ipv6_prefixes c) \<and>
            distinct (map (\<lambda>p. (version (prefix p), network_address (prefix p),
                                 prefixlen (prefix p))) (ipv6_prefixes c)))"
proof -
  have k: "distinct (map (\<lambda>p. (version (prefix p), network_address (prefix p),
                                prefixlen (prefix p))) ys)"
    if "list_all unscoped ps" and "process_prefixes ps = Inr ys" for ps ys
  proof -
    have "\<forall>n\<in>prefix ` set ps. scope_id n = None"
      using that(1) by (auto simp: list_all_iff unscoped_def)
    then have "\<forall>n\<in>prefix ` set ys. scope_id n = None"
      using process_prefixes_networks(2)[OF that(2)] by simp
    then have u: "\<forall>p\<in>set ys. scope_id (prefix p) = None"
      by simp
    have d: "distinct (map prefix ys)" by (rule process_prefixes_networks(1)[OF that(2)])
    have "prefix a = prefix b"
      if "a \<in> set ys" and "b \<in> set ys" and "version (prefix a) = version (prefix b)"
        and "network_address (prefix a) = network_address (prefix b)"
        and "prefixlen (prefix a) = prefixlen (prefix b)" for a b
      using that u by (simp add: network.equality)
    then show ?thesis
      using d by (auto simp: distinct_map inj_on_def)
  qed
  show ?thesis
    using init_distinct[OF assms] init_sorted[OF assms] init_parts(1,2)[OF assms] k
    by blast
qed

lemma init_example:
  "AWSIPPrefixes_init None None [rec_ec2, rec_10_8, rec_s3] [rec_v6] None =
     Inr \<lparr> sync_token = None, create_date = None, ipv4_prefixes = [rec_ec2_s3, rec_10_8],
           ipv6_prefixes = [rec_v6], md5 = None \<rparr>"
  by (simp add: construction_defs example_defs)

theorem init_strictly_sorted_witness:
  "AWSIPPrefixes_init None None [rec_ec2, rec_10_8, rec_s3] [rec_v6] None =
     Inr \<lparr> sync_token = None, create_date = None, ipv4_prefixes = [rec_ec2_s3, rec_10_8],
           ipv6_prefixes = [rec_v6], md5 = None \<rparr> \<and>
   list_all unscoped [rec_ec2, rec_10_8, rec_s3] \<and> list_all unscoped [rec_v6] \<and>
   distinct (map prefix [rec_ec2_s3, rec_10_8]) \<and> distinct (map prefix [rec_v6]) \<and>
   sorted_wrt AWSIPPrefix_lt [rec_ec2_s3, rec_10_8] \<and>
   sorted_wrt AWSIPPrefix_lt [rec_v6] \<and>
   distinct (map (\<lambda>p. (version (prefix p), network_address (prefix p), prefixlen (prefix p)))
              [rec_ec2_s3, rec_10_8])"
proof -
  have u: "list_all unscoped [rec_ec2, rec_10_8, rec_s3]" "list_all unscoped [rec_v6]"
    by (simp_all add: unscoped_def example_defs)
  show ?thesis
    using init_strictly_sorted[OF init_example] init_example u by simp
qed

text \<open>
  The claim as the specification states it fails on networks with scope ids:
  \<open>fe80::%a/64\<close> and \<open>fe80::%b/64\<close> are different networks, so both records
  are kept, on one address and prefix length, and \<open>__lt__\<close> puts neither
  before the other.
\<close>

theorem init_scoped_not_sorted:
  "AWSIPPrefixes_init None None [] [rec_scope_a, rec_scope_b] None =
     Inr \<lparr> sync_token = None, create_date = None, ipv4_prefixes = [],
           ipv6_prefixes = [rec_scope_a, rec_scope_b], md5 = None \<rparr> \<and>
   \<not> sorted_wrt AWSIPPrefix_lt [rec_scope_a, rec_scope_b] \<and>
   \<not> AWSIPPrefix_lt rec_scope_b rec_scope_a \<and>
   network_address (prefix rec_scope_a) = network_address (prefix rec_scope_b) \<and>
   prefixlen (prefix rec_scope_a) = prefixlen (prefix rec_scope_b)"
  by (simp add: construction_defs example_defs)

section \<open>The record constructor and the record combiner\<close>

text \<open>
  Claim C5, as the code has it. A record constructed with a single string as
  services stores the one-element sequence of that string. A record
  constructed with a tuple of strings stores the tuple sorted, with every
  duplicate kept. Any other collection of strings is refused with
  \<open>TypeError\<close>, whatever the other arguments are.
\<close>

theorem init_services:
  "(AWSIPvPrefix_init v pa r g sa = Inr p \<longrightarrow>
      (case sa of
         ServicesStr s \<Rightarrow> services p = [s]
       | ServicesTuple t \<Rightarrow> sorted (services p) \<and> mset (services p) = mset t
       | ServicesIterable t \<Rightarrow> False)) \<and>
   AWSIPvPrefix_init v pa r g (ServicesIterable t) = Inl TypeError"
  by (auto simp: AWSIPvPrefix_init_def AWSIPPrefix_init_def
           split: services_arg.splits option.splits prefix_arg.splits if_splits sum.splits)

lemma constructor_example:
  "AWSIPv4Prefix_init (PrefixNetwork net_3_5_140_22) ''ap-northeast-2'' ''ap-northeast-2''
     (ServicesTuple [''S3'', ''EC2'', ''S3'']) =
   Inr \<lparr> prefix = net_3_5_140_22, region = ''ap-northeast-2'',
         network_border_group = ''ap-northeast-2'', services = [''EC2'', ''S3'', ''S3''] \<rparr>"
  by (simp add: AWSIPvPrefix_init_def AWSIPPrefix_init_def example_defs)

theorem init_services_witness:
  "AWSIPv4Prefix_init (PrefixNetwork net_3_5_140_22) ''ap-northeast-2'' ''ap-northeast-2''
     (ServicesTuple [''S3'', ''EC2'', ''S3'']) =
   Inr \<lparr> prefix = net_3_5_140_22, region = ''ap-northeast-2'',
         network_border_group = ''ap-northeast-2'', services = [''EC2'', ''S3'', ''S3''] \<rparr> \<and>
   sorted [''EC2'', ''S3'', ''S3''] \<and> mset [''EC2'', ''S3'', ''S3''] = mset [''S3'', ''EC2'', ''S3''] \<and>
   AWSIPv4Prefix_init (PrefixNetwork net_3_5_140_22) ''ap-northeast-2'' ''ap-northeast-2''
     (ServicesIterable [''S3'', ''EC2'']) = Inl TypeError"
  using init_services[of IPv4 "PrefixNetwork net_3_5_140_22" "''ap-northeast-2''"
      "''ap-northeast-2''" "ServicesTuple [''S3'', ''EC2'', ''S3'']"
      "\<lparr> prefix = net_3_5_140_22, region = ''ap-northeast-2'',
         network_border_group = ''ap-northeast-2'', services = [''EC2'', ''S3'', ''S3''] \<rparr>"
      "[''S3'', ''EC2'']"]
    constructor_example
  by simp

text \<open>
  The claim as the specification states it fails: the tuple
  \<open>("S3", "EC2", "S3")\<close> is stored as \<open>("EC2", "S3", "S3")\<close>, which is not
  deduplicated.
\<close>

theorem init_services_not_deduplicated:
  "AWSIPv4Prefix_init (PrefixNetwork net_3_5_140_22) ''ap-northeast-2'' ''ap-northeast-2''
     (ServicesTuple [''S3'', ''EC2'', ''S3'']) =
   Inr \<lparr> prefix = net_3_5_140_22, region = ''ap-northeast-2'',
         network_border_group = ''ap-northeast-2'', services = [''EC2'', ''S3'', ''S3''] \<rparr> \<and>
   \<not> distinct [''EC2'', ''S3'', ''S3''] \<and>
   [''EC2'', ''S3'', ''S3''] \<noteq> sort (remdups [''S3'', ''EC2'', ''S3''])"
  by (simp add: AWSIPvPrefix_init_def AWSIPPrefix_init_def example_defs)

lemma sort_sort_remdups: "sort (sort (remdups xs)) = sorted_list_of_set (set xs)"
  by (simp add: sorted_list_of_set_sort_remdups sorted_sort_id)

text \<open>
  Claim C4, as the code has it. For a list of two or more records the
  combiner fails with \<open>TypeError\<close> when a record's IP version differs from the
  first record's; otherwise it fails with \<open>ValueError\<close> (InvariantViolation)
  unless all records share network, region and network border group; when
  they do, it returns one record with that network (so of the same IP
  version), region and border group, whose services are the sorted,
  deduplicated union of the services of all the records.
\<close>

theorem combine_prefixes_result:
  assumes "length prefixes > 1"
  shows "combine_prefixes prefixes =
     (if \<exists>p\<in>set prefixes. version (prefix p) \<noteq> version (prefix (hd prefixes))
        then Inl TypeError
      else if \<exists>p\<in>set prefixes.
          (prefix p, region p, network_border_group p) \<noteq>
          (prefix (hd prefixes), region (hd prefixes), network_border_group (hd prefixes))
        then Inl ValueError
      else Inr \<lparr> prefix = prefix (hd prefixes),
                 region = region (hd prefixes),
                 network_border_group = network_border_group (hd prefixes),
                 services = sorted_list_of_set (\<Union>p\<in>set prefixes. set (services p)) \<rparr>)"
proof -
  obtain a rest where ps: "prefixes = a # rest" and ne: "rest \<noteq> []"
    using assms by (cases prefixes) auto
  have u: "sort (sort (remdups (concat (map services (a # rest))))) =
      sorted_list_of_set (\<Union>p\<in>set (a # rest). set (services p))"
    unfolding sort_sort_remdups by simp
  show ?thesis
    unfolding ps combine_prefixes_def Let_def
    using ne u
    by (auto simp: list_all_iff AWSIPvPrefix_init_def AWSIPPrefix_init_def
             simp del: sorted_list_of_set_sort_remdups)
qed

theorem combine_prefixes_result_witness:
  "1 < length [rec_ec2, rec_s3] \<and> combine_prefixes [rec_ec2, rec_s3] = Inr rec_ec2_s3"
  using combine_prefixes_result[of "[rec_ec2, rec_s3]"]
  by (simp add: construction_defs example_defs)

text \<open>
  The claim as the specification states it fails on records of different IP
  versions: they do not share a network, and the combiner fails with
  \<open>TypeError\<close>, not with \<open>ValueError\<close>.
\<close>

theorem combine_prefixes_mixed_versions:
  "1 < length [rec_10_8, rec_v6] \<and> prefix rec_v6 \<noteq> prefix rec_10_8 \<and>
   combine_prefixes [rec_10_8, rec_v6] = Inl TypeError \<and>
   combine_prefixes [rec_10_8, rec_v6] \<noteq> Inl ValueError"
  by (simp add: construction_defs example_defs)

section \<open>Rebuilding a collection from records with pairwise different networks\<close>

lemma dict_append_fresh:
  "prefix p \<notin> fst ` set d \<Longrightarrow> dict_append d p = d @ [(prefix p, [p])]"
  by (induction d p rule: dict_append.induct) auto

lemma foldl_dict_append_distinct:
  "distinct (map prefix ps) \<Longrightarrow> prefix ` set ps \<inter> fst ` set d = {} \<Longrightarrow>
   foldl dict_append d ps = d @ map (\<lambda>p. (prefix p, [p])) ps"
proof (induction ps arbitrary: d)
  case Nil
  then show ?case by simp
next
  case (Cons p ps)
  have fresh: "prefix p \<notin> fst ` set d" using Cons.prems(2) by auto
  have step: "dict_append d p = d @ [(prefix p, [p])]"
    by (rule dict_append_fresh[OF fresh])
  have "prefix ` set ps \<inter> fst ` set (d @ [(prefix p, [p])]) = {}"
    using Cons.prems by auto
  then have "foldl dict_append (d @ [(prefix p, [p])]) ps =
      (d @ [(prefix p, [p])]) @ map (\<lambda>p. (prefix p, [p])) ps"
    using Cons.IH[of "d @ [(prefix p, [p])]"] Cons.prems(1) by simp
  then show ?case using step by simp
qed

lemma deduplicate_singletons: "deduplicate (map (\<lambda>p. [p]) ps) = Inr ps"
  by (induction ps) auto

lemma process_prefixes_distinct_input:
  assumes "distinct (map prefix ps)"
  shows "process_prefixes ps = Inr (sort_lt AWSIPPrefix_lt ps)"
proof -
  have "collect_duplicates ps = map (\<lambda>p. (prefix p, [p])) ps"
    using foldl_dict_append_distinct[OF assms, of "[]"] by (simp add: collect_duplicates_def)
  then have "map snd (collect_duplicates ps) = map (\<lambda>p. [p]) ps"
    by (simp add: comp_def)
  then show ?thesis
    by (simp add: process_prefixes_def deduplicate_singletons)
qed

lemma process_prefixes_id:
  assumes "sorted_wrt AWSIPPrefix_lt ps" and "distinct (map prefix ps)"
  shows "process_prefixes ps = Inr ps"
  using process_prefixes_distinct_input[OF assms(2)] assms(1) by (simp add: sort_lt_sorted_id)

lemma init_distinct_input:
  assumes "distinct (map prefix a)" and "distinct (map prefix b)"
  shows "\<exists>c'. AWSIPPrefixes_init st cd a b h = Inr c' \<and>
           mset (ipv4_prefixes c') = mset a \<and> mset (ipv6_prefixes c') = mset b"
  by (simp add: AWSIPPrefixes_init_def process_prefixes_distinct_input[OF assms(1)]
      process_prefixes_distinct_input[OF assms(2)] mset_sort_lt)

section \<open>The filter\<close>

lemma filter_unfold:
  "AWSIPPrefixes_filter c ra ga sa va =
     (let R = set_or (normalize_to_set ra) (AWSIPPrefixes_regions c);
          G = set_or (normalize_to_set ga) (AWSIPPrefixes_network_border_groups c);
          S = set_or (normalize_to_set sa) (AWSIPPrefixes_services c);
          V = set_or (normalize_to_set va) {4, 6}
      in if R \<subseteq> AWSIPPrefixes_regions c \<and> G \<subseteq> AWSIPPrefixes_network_border_groups c \<and>
            S \<subseteq> AWSIPPrefixes_services c \<and> V \<subseteq> {4, 6}
         then AWSIPPrefixes_init (sync_token c) (create_date c)
                (if 4 \<notin> V then [] else filter (selected R G S) (ipv4_prefixes c))
                (if 6 \<notin> V then [] else filter (selected R G S) (ipv6_prefixes c))
                None
         else Inl ValueError)"
  by (simp add: AWSIPPrefixes_filter_def validate_values_def Let_def)

text \<open>
  Claim C2, as the code has it. Every successful filter call returns a
  collection with the sync token and the create date of the source
  collection; the content hash is not handed to the new collection, which has
  none.
\<close>

theorem filter_metadata:
  "AWSIPPrefixes_filter c ra ga sa va = Inr c' \<Longrightarrow>
     sync_token c' = sync_token c \<and> create_date c' = create_date c \<and> md5 c' = None"
  by (auto simp: filter_unfold Let_def AWSIPPrefixes_init_def split: if_splits sum.splits)

lemmas filter_defs = filter_unfold Let_def set_or_def normalize_to_set_def selected_def
  AWSIPPrefixes_regions_def AWSIPPrefixes_network_border_groups_def AWSIPPrefixes_services_def
  iter_def

lemma filter_example:
  "AWSIPPrefixes_filter ranges_10 (Single ''R1'') Unset Unset Unset =
     Inr \<lparr> sync_token = Some ''1'', create_date = Some 0,
           ipv4_prefixes = [rec_10_8, rec_10_0_16], ipv6_prefixes = [], md5 = None \<rparr>"
  by (simp add: filter_defs construction_defs example_defs)

theorem filter_metadata_witness:
  "AWSIPPrefixes_filter ranges_10 (Single ''R1'') Unset Unset Unset =
     Inr \<lparr> sync_token = Some ''1'', create_date = Some 0,
           ipv4_prefixes = [rec_10_8, rec_10_0_16], ipv6_prefixes = [], md5 = None \<rparr> \<and>
   sync_token ranges_10 = Some ''1'' \<and> create_date ranges_10 = Some 0"
  using filter_metadata[OF filter_example] filter_example by simp

text \<open>
  The claim as the specification states it fails: the content hash of the
  filtered collection differs from the source's.
\<close>

theorem filter_drops_md5:
  "AWSIPPrefixes_filter ranges_10 (Single ''R1'') Unset Unset Unset =
     Inr \<lparr> sync_token = Some ''1'', create_date = Some 0,
           ipv4_prefixes = [rec_10_8, rec_10_0_16], ipv6_prefixes = [], md5 = None \<rparr> \<and>
   md5 ranges_10 = Some ''d41d'' \<and>
   md5 \<lparr> sync_token = Some ''1'', create_date = Some 0,
         ipv4_prefixes = [rec_10_8, rec_10_0_16], ipv6_prefixes = [], md5 = None \<rparr>
     \<noteq> md5 ranges_10"
  by (simp add: filter_defs construction_defs example_defs)

lemma ranges_10_init:
  "AWSIPPrefixes_init (Some ''1'') (Some 0) [rec_10_0_16, rec_10_8] [] (Some ''d41d'') =
     Inr ranges_10"
  by (simp add: construction_defs example_defs)

lemma ranges_10_well_typed: "well_typed ranges_10"
  by (simp add: well_typed_def example_defs)

lemma ranges_mistyped_init:
  "AWSIPPrefixes_init None None [rec_v6] [] None = Inr ranges_mistyped"
  by (simp add: construction_defs example_defs)

lemma filter_valid:
  assumes "AWSIPPrefixes_init st cd v4 v6 h = Inr c"
  shows "\<exists>c'. AWSIPPrefixes_init (sync_token c) (create_date c)
                (if 4 \<notin> V then [] else filter P (ipv4_prefixes c))
                (if 6 \<notin> V then [] else filter P (ipv6_prefixes c)) None = Inr c' \<and>
           mset (ipv4_prefixes c') = mset (if (4::int) \<in> V then filter P (ipv4_prefixes c) else []) \<and>
           mset (ipv6_prefixes c') = mset (if (6::int) \<in> V then filter P (ipv6_prefixes c) else [])"
proof -
  have "distinct (map prefix (if 4 \<notin> V then [] else filter P (ipv4_prefixes c)))"
    "distinct (map prefix (if 6 \<notin> V then [] else filter P (ipv6_prefixes c)))"
    using init_distinct[OF assms] by (simp_all add: distinct_map_filter)
  from init_distinct_input[OF this] show ?thesis by (auto split: if_splits)
qed




lemma normalize_to_set_empty: "normalize_to_set (Many []) = normalize_to_set Unset"
  by (simp add: normalize_to_set_def)

lemma set_or_unset: "set_or (normalize_to_set Unset) d = d"
  by (simp add: normalize_to_set_def set_or_def)

lemma set_or_all: "set xs = d \<Longrightarrow> set_or (normalize_to_set (Many xs)) d = d"
  by (auto simp: normalize_to_set_def set_or_def)

lemma selected_all:
  assumes "p \<in> set (iter c)"
  shows "selected (AWSIPPrefixes_regions c) (AWSIPPrefixes_network_border_groups c)
           (AWSIPPrefixes_services c) p \<longleftrightarrow> services p \<noteq> []"
proof -
  have "set (services p) \<subseteq> AWSIPPrefixes_services c"
    using assms by (auto simp: AWSIPPrefixes_services_def)
  then have "set (services p) \<inter> AWSIPPrefixes_services c = set (services p)" by blast
  then show ?thesis
    using assms
    by (auto simp: selected_def AWSIPPrefixes_regions_def AWSIPPrefixes_network_border_groups_def)
qed

text \<open>
  Claim C9. An explicitly empty collection of values for a filter parameter
  is treated as the omitted parameter, for each of the four parameters. The
  values used are then the default ones: the call is the call with all
  observed regions, border groups or services, or with the versions 4 and 6,
  given explicitly, and they pass the validation of that parameter. With
  every parameter empty the filter of a collection succeeds and returns every
  record of the collection that has a service (a record constructed with an
  empty tuple of services has no service in common with any set).
\<close>

theorem filter_empty_is_unset:
  "AWSIPPrefixes_filter c (Many []) ga sa va = AWSIPPrefixes_filter c Unset ga sa va \<and>
   AWSIPPrefixes_filter c ra (Many []) sa va = AWSIPPrefixes_filter c ra Unset sa va \<and>
   AWSIPPrefixes_filter c ra ga (Many []) va = AWSIPPrefixes_filter c ra ga Unset va \<and>
   AWSIPPrefixes_filter c ra ga sa (Many []) = AWSIPPrefixes_filter c ra ga sa Unset \<and>
   (set rs = AWSIPPrefixes_regions c \<longrightarrow>
      AWSIPPrefixes_filter c (Many []) ga sa va = AWSIPPrefixes_filter c (Many rs) ga sa va) \<and>
   (set gs = AWSIPPrefixes_network_border_groups c \<longrightarrow>
      AWSIPPrefixes_filter c ra (Many []) sa va = AWSIPPrefixes_filter c ra (Many gs) sa va) \<and>
   (set ss = AWSIPPrefixes_services c \<longrightarrow>
      AWSIPPrefixes_filter c ra ga (Many []) va = AWSIPPrefixes_filter c ra ga (Many ss) va) \<and>
   AWSIPPrefixes_filter c ra ga sa (Many []) = AWSIPPrefixes_filter c ra ga sa (Many [4, 6]) \<and>
   validate_values (set_or (normalize_to_set (Many [])) valid_values) valid_values = Inr () \<and>
   (AWSIPPrefixes_init st cd v4 v6 h = Inr c \<longrightarrow>
      (\<exists>c'. AWSIPPrefixes_filter c (Many []) (Many []) (Many []) (Many []) = Inr c' \<and>
            mset (ipv4_prefixes c') = mset (filter (\<lambda>p. services p \<noteq> []) (ipv4_prefixes c)) \<and>
            mset (ipv6_prefixes c') = mset (filter (\<lambda>p. services p \<noteq> []) (ipv6_prefixes c))))"
proof -
  have v: "set_or (normalize_to_set (Many [4, 6])) {4, 6 :: int} = {4, 6}"
    by (rule set_or_all) auto
  have eqs: "AWSIPPrefixes_filter c (Many []) ga sa va = AWSIPPrefixes_filter c Unset ga sa va"
    "AWSIPPrefixes_filter c ra (Many []) sa va = AWSIPPrefixes_filter c ra Unset sa va"
    "AWSIPPrefixes_filter c ra ga (Many []) va = AWSIPPrefixes_filter c ra ga Unset va"
    "AWSIPPrefixes_filter c ra ga sa (Many []) = AWSIPPrefixes_filter c ra ga sa Unset"
    "set rs = AWSIPPrefixes_regions c \<longrightarrow>
      AWSIPPrefixes_filter c (Many []) ga sa va = AWSIPPrefixes_filter c (Many rs) ga sa va"
    "set gs = AWSIPPrefixes_network_border_groups c \<longrightarrow>
      AWSIPPrefixes_filter c ra (Many []) sa va = AWSIPPrefixes_filter c ra (Many gs) sa va"
    "set ss = AWSIPPrefixes_services c \<longrightarrow>
      AWSIPPrefixes_filter c ra ga (Many []) va = AWSIPPrefixes_filter c ra ga (Many ss) va"
    "AWSIPPrefixes_filter c ra ga sa (Many []) = AWSIPPrefixes_filter c ra ga sa (Many [4, 6])"
    "validate_values (set_or (normalize_to_set (Many [])) valid_values) valid_values = Inr ()"
    by (simp_all add: filter_unfold normalize_to_set_empty set_or_unset set_or_all v
        validate_values_def)
  have all: "\<exists>c'. AWSIPPrefixes_filter c (Many []) (Many []) (Many []) (Many []) = Inr c' \<and>
            mset (ipv4_prefixes c') = mset (filter (\<lambda>p. services p \<noteq> []) (ipv4_prefixes c)) \<and>
            mset (ipv6_prefixes c') = mset (filter (\<lambda>p. services p \<noteq> []) (ipv6_prefixes c))"
    if init: "AWSIPPrefixes_init st cd v4 v6 h = Inr c"
  proof -
    let ?P = "selected (AWSIPPrefixes_regions c) (AWSIPPrefixes_network_border_groups c)
                (AWSIPPrefixes_services c)"
    have f4: "filter ?P (ipv4_prefixes c) = filter (\<lambda>p. services p \<noteq> []) (ipv4_prefixes c)"
      by (rule filter_cong) (simp_all add: selected_all iter_def)
    have f6: "filter ?P (ipv6_prefixes c) = filter (\<lambda>p. services p \<noteq> []) (ipv6_prefixes c)"
      by (rule filter_cong) (simp_all add: selected_all iter_def)
    show ?thesis
      using filter_valid[OF init, of "{4, 6}" ?P]
      by (simp add: filter_unfold normalize_to_set_empty set_or_unset f4 f6)
  qed
  show ?thesis using eqs all by blast
qed

theorem filter_empty_is_unset_witness:
  "AWSIPPrefixes_init (Some ''1'') (Some 0) [rec_10_0_16, rec_10_8] [] (Some ''d41d'') =
     Inr ranges_10 \<and>
   set [''R1''] = AWSIPPrefixes_regions ranges_10 \<and>
   set [''G1''] = AWSIPPrefixes_network_border_groups ranges_10 \<and>
   set [''AMAZON'', ''EC2''] = AWSIPPrefixes_services ranges_10 \<and>
   AWSIPPrefixes_filter ranges_10 (Many []) (Many []) (Many []) (Many []) =
     Inr \<lparr> sync_token = Some ''1'', create_date = Some 0,
           ipv4_prefixes = [rec_10_8, rec_10_0_16], ipv6_prefixes = [], md5 = None \<rparr> \<and>
   AWSIPPrefixes_filter ranges_10 (Many []) Unset (Single ''EC2'') Unset =
     AWSIPPrefixes_filter ranges_10 (Many [''R1'']) Unset (Single ''EC2'') Unset \<and>
   AWSIPPrefixes_filter ranges_10 (Many []) Unset (Single ''EC2'') Unset =
     Inr \<lparr> sync_token = Some ''1'', create_date = Some 0,
           ipv4_prefixes = [rec_10_0_16], ipv6_prefixes = [], md5 = None \<rparr>"
  using filter_empty_is_unset[of ranges_10 Unset "Single ''EC2''" Unset Unset
      "[''R1'']" "[''G1'']" "[''AMAZON'', ''EC2'']" "{}"
      "Some ''1''" "Some 0" "[rec_10_0_16, rec_10_8]" "[]" "Some ''d41d''"]
    ranges_10_init
  by (simp add: filter_defs construction_defs example_defs)

section \<open>Netmasks and supernets\<close>

lemma bit_ALL_ONES: "bit (ALL_ONES v) k \<longleftrightarrow> k < max_prefixlen v"
proof -
  have "ALL_ONES v = mask (max_prefixlen v)"
    by (simp only: ALL_ONES_def mask_eq_exp_minus_1)
  then show ?thesis by (simp add: bit_mask_iff)
qed

lemma bit_ip_int_from_prefix:
  "bit (ip_int_from_prefix v p) k \<longleftrightarrow> max_prefixlen v - p \<le> k \<and> k < max_prefixlen v"
  by (auto simp: ip_int_from_prefix_def bit_xor_iff bit_drop_bit_eq bit_ALL_ONES)

lemma bit_less_width:
  fixes a :: nat
  assumes "a < 2 ^ w" and "bit a k"
  shows "k < w"
proof -
  have "take_bit w a = a" using assms(1) by (rule take_bit_nat_eq_self)
  then have "bit (take_bit w a) k" using assms(2) by simp
  then show ?thesis by (simp add: bit_take_bit_iff)
qed

lemma supernet_address:
  fixes a :: nat
  assumes "a < 2 ^ max_prefixlen v" and "l \<le> p" and "p \<le> max_prefixlen v"
  shows "a AND push_bit (p - l) (ip_int_from_prefix v p) =
         push_bit (max_prefixlen v - l) (drop_bit (max_prefixlen v - l) a)"
proof (rule bit_eqI)
  fix k
  show "bit (a AND push_bit (p - l) (ip_int_from_prefix v p)) k \<longleftrightarrow>
        bit (push_bit (max_prefixlen v - l) (drop_bit (max_prefixlen v - l) a)) k"
    using assms bit_less_width[OF assms(1), of k]
    by (auto simp: bit_and_iff bit_push_bit_iff bit_drop_bit_eq bit_ip_int_from_prefix)
qed

lemma clear_low_bits_mono:
  fixes a :: nat
  assumes "j \<le> i"
  shows "push_bit i (drop_bit i a) \<le> push_bit j (drop_bit j a)"
proof -
  have "push_bit i (drop_bit i a) = a - a mod 2 ^ i"
    by (simp add: push_bit_eq_mult drop_bit_eq_div minus_mod_eq_div_mult)
  moreover have "push_bit j (drop_bit j a) = a - a mod 2 ^ j"
    by (simp add: push_bit_eq_mult drop_bit_eq_div minus_mod_eq_div_mult)
  moreover have "a mod 2 ^ j \<le> a mod 2 ^ i"
  proof -
    have "a mod 2 ^ j = (a mod 2 ^ i) mod 2 ^ j"
      using assms by (simp add: mod_mod_cancel le_imp_power_dvd)
    then show ?thesis by (metis mod_less_eq_dividend)
  qed
  ultimately show ?thesis by simp
qed

lemma clear_low_bits_le:
  fixes a :: nat
  shows "push_bit i (drop_bit i a) \<le> a"
  by (simp add: push_bit_eq_mult drop_bit_eq_div)

lemma clear_low_bits_idem:
  fixes a :: nat
  shows "push_bit i (drop_bit i (push_bit i (drop_bit i a))) = push_bit i (drop_bit i a)"
  by (simp add: drop_bit_push_bit)

lemma supernet_truncate:
  assumes "valid_network n" and "1 \<le> l" and "l \<le> prefixlen n"
  shows "supernet n l = Inr (truncate_network n l)"
  using assms supernet_address[of "network_address n" "version n" l "prefixlen n"]
  by (simp add: supernet_def truncate_network_def valid_network_def netmask_def)

lemma in_range_down: "l \<in> set (range_down p) \<longleftrightarrow> 1 \<le> l \<and> l \<le> p"
proof (induction p)
  case 0
  then show ?case by simp
next
  case (Suc p)
  have "l \<in> set (range_down (Suc p)) \<longleftrightarrow> l = Suc p \<or> l \<in> set (range_down p)"
    by simp
  also have "\<dots> \<longleftrightarrow> l = Suc p \<or> (1 \<le> l \<and> l \<le> p)"
    by (simp only: Suc.IH)
  also have "\<dots> \<longleftrightarrow> 1 \<le> l \<and> l \<le> Suc p"
    by arith
  finally show ?case .
qed

lemma set_range_down: "set (range_down p) = {l. 1 \<le> l \<and> l \<le> p}"
  using in_range_down by blast

lemma sorted_range_down: "sorted_wrt (>) (range_down p)"
  by (induction p) (auto simp: set_range_down)

lemma supernets_truncate:
  assumes "valid_network n"
  shows "supernets n = map (\<lambda>l. Inr (truncate_network n l)) (range_down (prefixlen n))"
  unfolding supernets_def
  by (rule map_cong) (simp_all add: set_range_down supernet_truncate[OF assms])

lemma supernets_Inr:
  assumes "s \<in> set (supernets n)"
  shows "\<exists>l sn. l \<le> prefixlen n \<and> s = Inr sn \<and> supernet n l = Inr sn"
proof -
  from assms obtain l where l: "1 \<le> l" "l \<le> prefixlen n" and s: "s = supernet n l"
    by (auto simp: supernets_def set_range_down)
  then obtain sn where "supernet n l = Inr sn"
    by (auto simp: supernet_def)
  then show ?thesis using l s by auto
qed

lemma valid_truncate_network:
  assumes "valid_network n" and "l \<le> prefixlen n"
  shows "valid_network (truncate_network n l)"
proof -
  have "push_bit (max_prefixlen (version n) - l)
          (drop_bit (max_prefixlen (version n) - l) (network_address n)) \<le> network_address n"
    by (rule clear_low_bits_le)
  then show ?thesis
    using assms by (simp add: valid_network_def truncate_network_def)
qed

lemma truncate_network_idem: "truncate_network (truncate_network n l) l = truncate_network n l"
  by (simp add: truncate_network_def clear_low_bits_idem)

lemma truncate_network_mono:
  assumes "j \<le> l"
  shows "network_address (truncate_network n j) \<le> network_address (truncate_network n l)"
  using assms by (simp add: truncate_network_def clear_low_bits_mono)

lemma and_less_width:
  fixes a :: nat
  assumes "a < 2 ^ w"
  shows "a AND m < 2 ^ w"
proof -
  have "take_bit w (a AND m) = a AND m"
    by (rule bit_eqI) (use bit_less_width[OF assms] in \<open>auto simp: bit_take_bit_iff bit_and_iff\<close>)
  then show ?thesis by (simp only: take_bit_nat_eq_self_iff)
qed

lemma valid_item_network:
  assumes "valid_item i" and "item_network i = Inr n"
  shows "valid_network n"
proof (cases i)
  case (ItemInterface v a z l)
  have "a < 2 ^ max_prefixlen v \<Longrightarrow> a AND ip_int_from_prefix v l < 2 ^ max_prefixlen v"
    by (rule and_less_width)
  then show ?thesis
    using assms ItemInterface by (auto simp: valid_item_def item_network_def valid_network_def)
qed (use assms in \<open>auto simp: valid_item_def item_network_def valid_network_def
       split: option.splits\<close>)

section \<open>The exact lookup\<close>

declare bisect_left_loop.simps [simp del]

lemma bisect_left_loop_typed:
  assumes "\<forall>p\<in>set a. version (prefix p) = version x" and "hi \<le> length a" and "lo \<le> hi"
  shows "\<exists>i. bisect_left_loop a x lo hi = Inr i \<and> lo \<le> i \<and> i \<le> hi"
  using assms
proof (induction a x lo hi rule: bisect_left_loop.induct)
  case (1 a x lo hi)
  show ?case
  proof (cases "lo < hi")
    case False
    then have "bisect_left_loop a x lo hi = Inr lo"
      by (subst bisect_left_loop.simps) simp
    then show ?thesis using "1.prems" by simp
  next
    case True
    let ?mid = "(lo + hi) div 2"
    have mid: "lo \<le> ?mid" "?mid < hi" using True by auto
    then have "a ! ?mid \<in> set a" using "1.prems"(2) by simp
    then have "version (prefix (a ! ?mid)) = version x" using "1.prems"(1) by simp
    then have "\<exists>b. AWSIPPrefix_lt_network (a ! ?mid) x = Inr b"
      by (auto simp: AWSIPPrefix_lt_network_def network_lt_def)
    then obtain b where b: "AWSIPPrefix_lt_network (a ! ?mid) x = Inr b" ..
    have unfold: "bisect_left_loop a x lo hi =
        (if b then bisect_left_loop a x (?mid + 1) hi else bisect_left_loop a x lo ?mid)"
      using \<open>lo < hi\<close> b by (subst bisect_left_loop.simps) (simp add: Let_def)
    show ?thesis
    proof (cases b)
      case True
      have "\<exists>i. bisect_left_loop a x (?mid + 1) hi = Inr i \<and> ?mid + 1 \<le> i \<and> i \<le> hi"
        using "1.IH"(1)[OF \<open>lo < hi\<close> refl b[unfolded True]] "1.prems" mid True by simp
      then show ?thesis
        unfolding unfold using True mid by auto
    next
      case False
      have "\<exists>i. bisect_left_loop a x lo ?mid = Inr i \<and> lo \<le> i \<and> i \<le> ?mid"
        using "1.IH"(2)[OF \<open>lo < hi\<close> refl b[unfolded False]] "1.prems" mid False by simp
      then show ?thesis
        unfolding unfold using False mid by auto
    qed
  qed
qed

lemma get_prefix_Some: "get_prefix c n = Inr (Some p) \<Longrightarrow> prefix p = n"
  by (auto simp: get_prefix_def Let_def split: sum.splits if_splits)

lemma get_prefix_typed:
  assumes "well_typed c"
  shows "\<exists>r. get_prefix c n = Inr r \<and> (\<forall>p. r = Some p \<longrightarrow> prefix p = n \<and> p \<in> set (iter c))"
proof -
  define coll where "coll = (case version n of IPv4 \<Rightarrow> ipv4_prefixes c | IPv6 \<Rightarrow> ipv6_prefixes c)"
  have typed: "\<forall>p\<in>set coll. version (prefix p) = version n"
    using assms by (cases "version n") (auto simp: coll_def well_typed_def list_all_iff)
  have sub: "set coll \<subseteq> set (iter c)"
    by (cases "version n") (auto simp: coll_def iter_def)
  obtain i where i: "bisect_left coll n = Inr i" "i \<le> length coll"
    using bisect_left_loop_typed[OF typed, of "length coll" 0] by (auto simp: bisect_left_def)
  show ?thesis
    using i sub unfolding get_prefix_def coll_def[symmetric] Let_def
    by (auto simp: subset_iff)
qed

lemma get_prefix_absent:
  assumes "well_typed c" and "n \<notin> prefix ` set (iter c)"
  shows "get_prefix c n = Inr None"
proof -
  obtain r where r: "get_prefix c n = Inr r"
    "\<forall>p. r = Some p \<longrightarrow> prefix p = n \<and> p \<in> set (iter c)"
    using get_prefix_typed[OF assms(1)] by blast
  then have "r = None" using assms(2) by (cases r) auto
  then show ?thesis using r by simp
qed

section \<open>The two walks over the supernets\<close>

lemma loops_agree:
  "supernets_loop c ss = Inr hits \<Longrightarrow>
   getitem_loop c ss = (case hits of [] \<Rightarrow> Inl KeyError | h # _ \<Rightarrow> Inr h)"
proof (induction ss arbitrary: hits)
  case Nil
  then show ?case by simp
next
  case (Cons s ss)
  from Cons.prems obtain sn r rest where s: "s = Inr sn" and r: "get_prefix c sn = Inr r"
    and rest: "supernets_loop c ss = Inr rest"
    and hits: "hits = (case r of None \<Rightarrow> rest | Some p \<Rightarrow> p # rest)"
    by (auto split: sum.splits)
  show ?case
  proof (cases r)
    case None
    then show ?thesis using s r rest hits Cons.IH[OF rest] by simp
  next
    case (Some p)
    then show ?thesis using s r hits by simp
  qed
qed

lemma supernets_loop_hits:
  assumes "supernets_loop c (map (\<lambda>l. Inr (f l)) ls) = Inr hits"
    and "sorted_wrt (>) ls" and "\<And>l. prefixlen (f l) = l"
  shows "sorted_wrt (\<lambda>a b. prefixlen (prefix a) > prefixlen (prefix b)) hits \<and>
         (\<forall>h\<in>set hits. \<exists>l\<in>set ls. prefix h = f l)"
  using assms(1,2)
proof (induction ls arbitrary: hits)
  case Nil
  then show ?case by simp
next
  case (Cons l ls)
  from Cons.prems(1) obtain r rest where r: "get_prefix c (f l) = Inr r"
    and rest: "supernets_loop c (map (\<lambda>l. Inr (f l)) ls) = Inr rest"
    and hits: "hits = (case r of None \<Rightarrow> rest | Some p \<Rightarrow> p # rest)"
    by (auto split: sum.splits)
  have sorted: "sorted_wrt (>) ls" and above: "\<forall>k\<in>set ls. k < l"
    using Cons.prems(2) by auto
  have ih: "sorted_wrt (\<lambda>a b. prefixlen (prefix a) > prefixlen (prefix b)) rest"
    "\<forall>h\<in>set rest. \<exists>k\<in>set ls. prefix h = f k"
    using Cons.IH[OF rest sorted] by simp_all
  show ?case
  proof (cases r)
    case None
    then show ?thesis using hits ih by auto
  next
    case (Some p)
    have p: "prefix p = f l" using r Some by (simp add: get_prefix_Some)
    have "\<forall>h\<in>set rest. prefixlen (prefix h) < prefixlen (prefix p)"
    proof
      fix h assume "h \<in> set rest"
      then obtain k where "k \<in> set ls" "prefix h = f k" using ih(2) by blast
      then show "prefixlen (prefix h) < prefixlen (prefix p)"
        using above p assms(3) by simp
    qed
    then show ?thesis using hits Some ih p by auto
  qed
qed

lemma getitem_loop_hit:
  "getitem_loop c (map (\<lambda>l. Inr (f l)) ls) = Inr r \<Longrightarrow>
   \<exists>l\<in>set ls. get_prefix c (f l) = Inr (Some r)"
proof (induction ls)
  case Nil
  then show ?case by simp
next
  case (Cons l ls)
  then show ?case by (auto split: sum.splits option.splits)
qed

lemma supernets_loop_absent:
  assumes "well_typed c"
    and "\<forall>s\<in>set ss. \<exists>sn. s = Inr sn \<and> sn \<notin> prefix ` set (iter c)"
  shows "supernets_loop c ss = Inr []"
  using assms(2)
proof (induction ss)
  case Nil
  then show ?case by simp
next
  case (Cons s ss)
  then obtain sn where s: "s = Inr sn" and sn: "sn \<notin> prefix ` set (iter c)"
    by auto
  have "get_prefix c sn = Inr None" by (rule get_prefix_absent[OF assms(1) sn])
  then show ?case using s Cons by simp
qed

lemma truncate_hits_order:
  assumes "AWSIPPrefix_lt a b"
    and "prefix a = truncate_network n la" and "prefix b = truncate_network n lb"
    and "prefix a \<noteq> prefix b"
  shows "prefixlen (prefix a) < prefixlen (prefix b)"
proof (rule ccontr)
  assume "\<not> prefixlen (prefix a) < prefixlen (prefix b)"
  then have le: "lb \<le> la" using assms(2,3) by (simp add: truncate_network_def)
  have v: "version (prefix a) = version (prefix b)"
    using assms(2,3) by (simp add: truncate_network_def)
  have "network_address (prefix b) \<le> network_address (prefix a)"
    using truncate_network_mono[OF le, of n] assms(2,3) by simp
  moreover have "prefixlen (prefix b) \<le> prefixlen (prefix a)"
    using le assms(2,3) by (simp add: truncate_network_def)
  ultimately have "prefix a = prefix b"
    using assms(1) v by (auto simp: AWSIPPrefix_lt_def network.equality split: if_splits)
  then show False using assms(4) by simp
qed

section \<open>The binary search finds every stored network\<close>

lemma lt_network_key:
  assumes "version (prefix p) = version x" and "scope_id (prefix p) = scope_id x"
  shows "AWSIPPrefix_lt_network p x = Inr (network_key (prefix p) < network_key x)"
  using assms
  by (auto simp: AWSIPPrefix_lt_network_def network_lt_def network_key_def network.equality)

lemma sorted_network_keys:
  assumes "sorted_wrt AWSIPPrefix_lt a" and "\<forall>p\<in>set a. version (prefix p) = v"
    and "\<forall>p\<in>set a. scope_id (prefix p) = z"
  shows "sorted (map (\<lambda>p. network_key (prefix p)) a)"
proof -
  have "sorted_wrt (\<lambda>p q. network_key (prefix p) \<le> network_key (prefix q)) a"
  proof (rule sorted_wrt_mono_rel[OF _ assms(1)])
    fix p q assume "p \<in> set a" "q \<in> set a" "AWSIPPrefix_lt p q"
    then show "network_key (prefix p) \<le> network_key (prefix q)"
      using assms(2,3) by (auto simp: AWSIPPrefix_lt_def network_key_def split: if_splits)
  qed
  then show ?thesis by (simp add: sorted_wrt_map)
qed

lemma bisect_left_loop_sorted:
  assumes "sorted (map (\<lambda>p. network_key (prefix p)) a)"
    and "\<forall>p\<in>set a. version (prefix p) = version x \<and> scope_id (prefix p) = scope_id x"
    and "lo \<le> hi" and "hi \<le> length a"
    and "\<forall>j<lo. network_key (prefix (a ! j)) < network_key x"
    and "\<forall>j. hi \<le> j \<and> j < length a \<longrightarrow> network_key x \<le> network_key (prefix (a ! j))"
  shows "\<exists>i. bisect_left_loop a x lo hi = Inr i \<and> i \<le> length a \<and>
           (\<forall>j<i. network_key (prefix (a ! j)) < network_key x) \<and>
           (\<forall>j. i \<le> j \<and> j < length a \<longrightarrow> network_key x \<le> network_key (prefix (a ! j)))"
  using assms
proof (induction a x lo hi rule: bisect_left_loop.induct)
  case (1 a x lo hi)
  show ?case
  proof (cases "lo < hi")
    case False
    then have "bisect_left_loop a x lo hi = Inr lo"
      by (subst bisect_left_loop.simps) simp
    moreover have "lo = hi" using False "1.prems"(3) by simp
    ultimately show ?thesis using "1.prems" by auto
  next
    case True
    let ?mid = "(lo + hi) div 2"
    let ?k = "\<lambda>j. network_key (prefix (a ! j))"
    have mid: "lo \<le> ?mid" "?mid < hi" "?mid < length a" using True "1.prems"(4) by auto
    have "a ! ?mid \<in> set a" using mid by simp
    then have v: "version (prefix (a ! ?mid)) = version x"
      and z: "scope_id (prefix (a ! ?mid)) = scope_id x"
      using "1.prems"(2) by simp_all
    define b where "b = (?k ?mid < network_key x)"
    have b: "AWSIPPrefix_lt_network (a ! ?mid) x = Inr b"
      unfolding b_def by (rule lt_network_key[OF v z])
    have unfold: "bisect_left_loop a x lo hi =
        (if b then bisect_left_loop a x (?mid + 1) hi else bisect_left_loop a x lo ?mid)"
      using True b by (subst bisect_left_loop.simps) (simp add: Let_def)
    have mono: "\<And>i j. i \<le> j \<Longrightarrow> j < length a \<Longrightarrow> ?k i \<le> ?k j"
      using "1.prems"(1) by (simp add: sorted_iff_nth_mono)
    show ?thesis
    proof (cases b)
      case True
      have below: "\<forall>j<?mid + 1. ?k j < network_key x"
      proof (intro allI impI)
        fix j assume "j < ?mid + 1"
        then have "?k j \<le> ?k ?mid" using mono[of j ?mid] mid by simp
        then show "?k j < network_key x" using True b_def by simp
      qed
      have "\<exists>i. bisect_left_loop a x (?mid + 1) hi = Inr i \<and> i \<le> length a \<and>
           (\<forall>j<i. ?k j < network_key x) \<and>
           (\<forall>j. i \<le> j \<and> j < length a \<longrightarrow> network_key x \<le> ?k j)"
        using mid "1.prems"(1,2,4,6) below True
        by (intro "1.IH"(1)[OF \<open>lo < hi\<close> refl b[unfolded True]]) simp_all
      then show ?thesis unfolding unfold using True by simp
    next
      case False
      have above: "\<forall>j. ?mid \<le> j \<and> j < length a \<longrightarrow> network_key x \<le> ?k j"
      proof (intro allI impI)
        fix j assume "?mid \<le> j \<and> j < length a"
        then have "?k ?mid \<le> ?k j" using mono[of ?mid j] by simp
        then show "network_key x \<le> ?k j" using False b_def by simp
      qed
      have "\<exists>i. bisect_left_loop a x lo ?mid = Inr i \<and> i \<le> length a \<and>
           (\<forall>j<i. ?k j < network_key x) \<and>
           (\<forall>j. i \<le> j \<and> j < length a \<longrightarrow> network_key x \<le> ?k j)"
        using mid "1.prems"(1,2,5) above False
        by (intro "1.IH"(2)[OF \<open>lo < hi\<close> refl b[unfolded False]]) simp_all
      then show ?thesis unfolding unfold using False by simp
    qed
  qed
qed

lemma get_prefix_finds:
  assumes "well_typed c" and "list_all unscoped (iter c)"
    and "sorted_wrt AWSIPPrefix_lt (ipv4_prefixes c)" and "distinct (map prefix (ipv4_prefixes c))"
    and "sorted_wrt AWSIPPrefix_lt (ipv6_prefixes c)" and "distinct (map prefix (ipv6_prefixes c))"
    and "r \<in> set (iter c)"
  shows "get_prefix c (prefix r) = Inr (Some r)"
proof -
  define n where "n = prefix r"
  define coll where "coll = (case version n of IPv4 \<Rightarrow> ipv4_prefixes c | IPv6 \<Rightarrow> ipv6_prefixes c)"
  have sub: "set coll \<subseteq> set (iter c)"
    by (cases "version n") (auto simp: coll_def iter_def)
  have none: "\<forall>p\<in>set (iter c). scope_id (prefix p) = None"
    using assms(2) by (auto simp: list_all_iff unscoped_def)
  have versions: "\<forall>p\<in>set coll. version (prefix p) = version n"
    using assms(1) by (cases "version n") (auto simp: coll_def well_typed_def list_all_iff)
  have scopes: "\<forall>p\<in>set coll. scope_id (prefix p) = scope_id n"
    using none sub assms(7) by (auto simp: n_def)
  have typed: "\<forall>p\<in>set coll. version (prefix p) = version n \<and> scope_id (prefix p) = scope_id n"
    using versions scopes by simp
  have srt: "sorted_wrt AWSIPPrefix_lt coll" and dist: "distinct (map prefix coll)"
    using assms(3-6) by (cases "version n"; simp add: coll_def)+
  have r: "r \<in> set coll"
    using assms(1,7) by (cases "version n")
      (auto simp: coll_def iter_def well_typed_def list_all_iff n_def)
  let ?k = "\<lambda>j. network_key (prefix (coll ! j))"
  have keys: "sorted (map (\<lambda>p. network_key (prefix p)) coll)"
    by (rule sorted_network_keys[OF srt versions scopes])
  have "\<exists>i. bisect_left_loop coll n 0 (length coll) = Inr i \<and> i \<le> length coll \<and>
      (\<forall>j<i. ?k j < network_key n) \<and>
      (\<forall>j. i \<le> j \<and> j < length coll \<longrightarrow> network_key n \<le> ?k j)"
    by (rule bisect_left_loop_sorted[OF keys typed]) auto
  then obtain i where i: "bisect_left coll n = Inr i" "i \<le> length coll"
    and below: "\<forall>j<i. ?k j < network_key n"
    and above: "\<forall>j. i \<le> j \<and> j < length coll \<longrightarrow> network_key n \<le> ?k j"
    unfolding bisect_left_def by blast
  obtain j where j: "j < length coll" "coll ! j = r"
    using r by (auto simp: in_set_conv_nth)
  have kj: "?k j = network_key n" using j by (simp add: n_def)
  have "i \<le> j" using below kj by (metis not_le_imp_less less_irrefl)
  have mono: "\<And>i j. i \<le> j \<Longrightarrow> j < length coll \<Longrightarrow> ?k i \<le> ?k j"
    using keys by (simp add: sorted_iff_nth_mono)
  have "?k i \<le> ?k j" using \<open>i \<le> j\<close> j(1) by (rule mono)
  moreover have il: "i < length coll" using \<open>i \<le> j\<close> j by simp
  then have "network_key n \<le> ?k i" using above by simp
  ultimately have "?k i = network_key n" using kj by simp
  moreover have "version (prefix (coll ! i)) = version n \<and> scope_id (prefix (coll ! i)) = scope_id n"
    using typed il by simp
  ultimately have pi: "prefix (coll ! i) = n"
    by (simp add: network_key_def network.equality)
  then have "prefix (coll ! i) = prefix (coll ! j)" using j by (simp add: n_def)
  then have "i = j" using dist il j(1) by (auto simp: distinct_conv_nth)
  then have "coll ! i = r" using j by simp
  then show ?thesis
    using i il pi unfolding n_def[symmetric] get_prefix_def coll_def[symmetric] Let_def
    by simp
qed

section \<open>The walk returns the longest stored supernet of length at least 1\<close>

lemma get_prefix_stored_record:
  assumes "well_typed c" and "list_all unscoped (iter c)"
    and "sorted_wrt AWSIPPrefix_lt (ipv4_prefixes c)" and "distinct (map prefix (ipv4_prefixes c))"
    and "sorted_wrt AWSIPPrefix_lt (ipv6_prefixes c)" and "distinct (map prefix (ipv6_prefixes c))"
  shows "get_prefix c n = Inr (stored_record c n)"
proof (cases "stored_record c n")
  case None
  then have "n \<notin> prefix ` set (iter c)"
    by (auto simp: stored_record_def find_None_iff)
  then show ?thesis using None get_prefix_absent[OF assms(1)] by simp
next
  case (Some r)
  then have "r \<in> set (iter c)" "prefix r = n"
    by (auto simp: stored_record_def find_Some_iff)
  then show ?thesis using Some get_prefix_finds[OF assms, of r] by simp
qed

lemma getitem_loop_first_hit:
  assumes "\<And>n. get_prefix c n = Inr (stored_record c n)"
  shows "getitem_loop c (map (\<lambda>l. Inr (f l)) ls) =
     (case first_hit (\<lambda>l. stored_record c (f l)) ls of
        None \<Rightarrow> Inl KeyError | Some r \<Rightarrow> Inr r)"
  by (induction ls) (auto simp: assms split: option.splits)

lemma getitem_longest_match:
  assumes "AWSIPPrefixes_init st cd v4 v6 h = Inr c"
    and "list_all (\<lambda>p. version (prefix p) = IPv4) v4"
    and "list_all (\<lambda>p. version (prefix p) = IPv6) v6"
    and "list_all unscoped v4" and "list_all unscoped v6"
    and "valid_item i" and "item_network i = Inr n"
  shows "getitem c i = (case longest_match c n of None \<Rightarrow> Inl KeyError | Some r \<Rightarrow> Inr r)"
proof -
  have typed: "well_typed c" by (rule init_well_typed[OF assms(1-3)])
  have unsc: "list_all unscoped (iter c)" by (rule init_unscoped[OF assms(1,4,5)])
  have exact: "\<And>n. get_prefix c n = Inr (stored_record c n)"
    using get_prefix_stored_record[OF typed unsc] init_sorted[OF assms(1)] init_distinct[OF assms(1)]
      assms(4,5)
    by blast
  have valid: "valid_network n" by (rule valid_item_network[OF assms(6,7)])
  show ?thesis
    using assms(7)
    by (simp add: getitem_def supernets_truncate[OF valid] longest_match_def
        getitem_loop_first_hit[OF exact])
qed

section \<open>The ancestors lookup and the longest-prefix match\<close>

text \<open>
  Claim C7. Whenever the ancestors lookup succeeds with a sequence, that
  sequence is strictly sorted by the order of the records, its prefix lengths
  increase strictly, and its last element is the record that the
  longest-prefix-match lookup returns for the same item.
\<close>

theorem get_prefix_and_supernets_sorted:
  assumes "valid_item key" and "get_prefix_and_supernets c key d = Inr (Inl ps)"
  shows "sorted_wrt AWSIPPrefix_lt ps \<and>
         sorted_wrt (\<lambda>a b. prefixlen (prefix a) < prefixlen (prefix b)) ps \<and>
         getitem c key = Inr (last ps)"
proof -
  from assms(2) obtain n hits where n: "item_network key = Inr n"
    and hits: "supernets_loop c (supernets n) = Inr hits"
    and ne: "hits \<noteq> []" and ps: "ps = sort_lt AWSIPPrefix_lt hits"
    by (auto simp: get_prefix_and_supernets_def split: sum.splits if_splits)
  have valid: "valid_network n" by (rule valid_item_network[OF assms(1) n])
  have hits': "supernets_loop c (map (\<lambda>l. Inr (truncate_network n l)) (range_down (prefixlen n)))
      = Inr hits"
    using hits by (simp only: supernets_truncate[OF valid])
  have shape: "sorted_wrt (\<lambda>a b. prefixlen (prefix a) > prefixlen (prefix b)) hits"
    "\<forall>h\<in>set hits. \<exists>l\<in>set (range_down (prefixlen n)). prefix h = truncate_network n l"
    using supernets_loop_hits[OF hits' sorted_range_down, simplified truncate_network_def]
    by (simp_all add: truncate_network_def)
  have "sorted_wrt (\<lambda>a b. prefix a \<noteq> prefix b) hits"
    by (rule sorted_wrt_mono_rel[OF _ shape(1)]) auto
  then have dist: "distinct (map prefix hits)"
    by (simp add: distinct_map sorted_wrt_map distinct_conv_nth sorted_wrt_iff_nth_less inj_on_def)
       (metis in_set_conv_nth nat_neq_iff)
  have set_ps: "set ps = set hits" by (simp add: ps set_sort_lt)
  have "\<forall>h\<in>set hits. unscoped h"
    using shape(2) by (auto simp: unscoped_def truncate_network_def)
  then have s1: "sorted_wrt AWSIPPrefix_lt ps"
    unfolding ps by (rule strictly_sorted_sort_lt[OF dist])
  have inj: "\<And>a b. a \<in> set hits \<Longrightarrow> b \<in> set hits \<Longrightarrow> prefix a = prefix b \<Longrightarrow> a = b"
    using dist by (auto simp: distinct_map inj_on_def)
  have s2: "sorted_wrt (\<lambda>a b. prefixlen (prefix a) < prefixlen (prefix b)) ps"
  proof (rule sorted_wrt_mono_rel[OF _ s1])
    fix a b assume a: "a \<in> set ps" and b: "b \<in> set ps" and lt: "AWSIPPrefix_lt a b"
    obtain la lb where la: "prefix a = truncate_network n la" and lb: "prefix b = truncate_network n lb"
      using a b shape(2) set_ps by blast
    have "a \<noteq> b" using lt AWSIPPrefix_lt_irrefl by auto
    then have "prefix a \<noteq> prefix b" using inj a b set_ps by auto
    then show "prefixlen (prefix a) < prefixlen (prefix b)"
      by (rule truncate_hits_order[OF lt la lb])
  qed
  have ps_ne: "ps \<noteq> []" using ne set_ps by auto
  have "last ps = hd hits"
  proof (rule ccontr)
    assume neq: "last ps \<noteq> hd hits"
    have "hd hits \<in> set ps" using ne set_ps by simp
    then have "hd hits \<in> set (butlast ps)"
      using neq ps_ne by (metis append_butlast_last_id in_set_conv_decomp_last last_snoc
          rotate1.simps(2) set_ConsD set_rotate1)
    then have "prefixlen (prefix (hd hits)) < prefixlen (prefix (last ps))"
      using s2 ps_ne by (metis append_butlast_last_id sorted_wrt_append list.set_intros(1))
    moreover have "last ps \<in> set (tl hits)"
      using neq ne set_ps ps_ne by (metis last_in_set list.collapse set_ConsD)
    then have "prefixlen (prefix (last ps)) < prefixlen (prefix (hd hits))"
      using shape(1) ne by (metis list.collapse sorted_wrt.simps(2))
    ultimately show False by simp
  qed
  moreover have "getitem c key = Inr (hd hits)"
    using loops_agree[OF hits] n ne by (cases hits) (simp_all add: getitem_def)
  ultimately show ?thesis using s1 s2 by simp
qed

lemma range_down_numeral: "range_down (numeral k) = numeral k # range_down (pred_numeral k)"
  by (simp add: numeral_eq_Suc)

lemma ranges_10_lookup:
  "get_prefix_and_supernets ranges_10 (ItemInterface IPv4 167772421 None 20) d =
     Inr (Inl [rec_10_8, rec_10_0_16])"
  by (simp add: lookup_defs bisect_left_loop.simps construction_defs example_defs range_down_numeral)

theorem get_prefix_and_supernets_sorted_witness:
  "valid_item (ItemInterface IPv4 167772421 None 20) \<and>
   get_prefix_and_supernets ranges_10 (ItemInterface IPv4 167772421 None 20) () =
     Inr (Inl [rec_10_8, rec_10_0_16]) \<and>
   sorted_wrt AWSIPPrefix_lt [rec_10_8, rec_10_0_16] \<and>
   sorted_wrt (\<lambda>a b. prefixlen (prefix a) < prefixlen (prefix b)) [rec_10_8, rec_10_0_16] \<and>
   getitem ranges_10 (ItemInterface IPv4 167772421 None 20) = Inr (last [rec_10_8, rec_10_0_16])"
proof -
  have v: "valid_item (ItemInterface IPv4 167772421 None 20)"
    by (simp add: valid_item_def max_prefixlen_def)
  show ?thesis
    using get_prefix_and_supernets_sorted[OF v ranges_10_lookup] v ranges_10_lookup
    by simp
qed

text \<open>
  Claim C8. Whenever the longest-prefix-match lookup of an item succeeds with
  a record, the lookup of that record, and of that record's network, in the
  same collection returns the same record.
\<close>

theorem getitem_idempotent:
  assumes "valid_item i" and "getitem c i = Inr r"
  shows "getitem c (ItemPrefix r) = Inr r \<and> getitem c (ItemNetwork (prefix r)) = Inr r"
proof -
  from assms(2) obtain n where n: "item_network i = Inr n"
    and loop: "getitem_loop c (supernets n) = Inr r"
    by (auto simp: getitem_def split: sum.splits)
  have valid: "valid_network n" by (rule valid_item_network[OF assms(1) n])
  have "getitem_loop c (map (\<lambda>l. Inr (truncate_network n l)) (range_down (prefixlen n))) = Inr r"
    using loop by (simp only: supernets_truncate[OF valid])
  then obtain l where l: "l \<in> set (range_down (prefixlen n))"
    and hit: "get_prefix c (truncate_network n l) = Inr (Some r)"
    using getitem_loop_hit by blast
  have l1: "1 \<le> l" and lp: "l \<le> prefixlen n" using l by (simp_all add: in_range_down)
  have pr: "prefix r = truncate_network n l" using hit by (rule get_prefix_Some)
  have vr: "valid_network (prefix r)"
    unfolding pr by (rule valid_truncate_network[OF valid lp])
  have len: "prefixlen (prefix r) = l" by (simp add: pr truncate_network_def)
  obtain k where k: "l = Suc k" using l1 by (cases l) auto
  have "supernets (prefix r) =
      map (\<lambda>j. Inr (truncate_network (prefix r) j)) (range_down (prefixlen (prefix r)))"
    by (rule supernets_truncate[OF vr])
  also have "\<dots> = Inr (truncate_network (prefix r) l) #
      map (\<lambda>j. Inr (truncate_network (prefix r) j)) (range_down k)"
    by (simp add: len k)
  also have "truncate_network (prefix r) l = prefix r"
    unfolding pr by (rule truncate_network_idem)
  finally have "getitem_loop c (supernets (prefix r)) = Inr r"
    using hit pr by simp
  then show ?thesis by (simp add: getitem_def item_network_def)
qed

lemma ranges_10_getitem:
  "getitem ranges_10 (ItemInterface IPv4 167772421 None 20) = Inr rec_10_0_16"
  by (simp add: lookup_defs bisect_left_loop.simps construction_defs example_defs range_down_numeral)

theorem getitem_idempotent_witness:
  "valid_item (ItemInterface IPv4 167772421 None 20) \<and>
   getitem ranges_10 (ItemInterface IPv4 167772421 None 20) = Inr rec_10_0_16 \<and>
   getitem ranges_10 (ItemPrefix rec_10_0_16) = Inr rec_10_0_16 \<and>
   getitem ranges_10 (ItemNetwork (prefix rec_10_0_16)) = Inr rec_10_0_16"
proof -
  have v: "valid_item (ItemInterface IPv4 167772421 None 20)"
    by (simp add: valid_item_def max_prefixlen_def)
  show ?thesis
    using getitem_idempotent[OF v ranges_10_getitem] v ranges_10_getitem by simp
qed

text \<open>
  Claim C10, as the code has it. For every collection whose sequence of IPv4
  records holds IPv4 records only and whose sequence of IPv6 records holds
  IPv6 records only: when no record of the collection has the network of any
  supernet of the item's network, the ancestors lookup does not fail: it
  returns the default value given by the caller (\<open>None\<close> when the caller gives
  none), whereas the longest-prefix-match lookup raises \<open>KeyError\<close>
  (NotFound).
\<close>

theorem get_prefix_and_supernets_default:
  assumes "well_typed c" and "item_network key = Inr n"
    and "\<forall>l\<le>prefixlen n. \<forall>p\<in>set (iter c). supernet n l \<noteq> Inr (prefix p)"
  shows "get_prefix_and_supernets c key d = Inr (Inr d) \<and> getitem c key = Inl KeyError"
proof -
  have "\<forall>s\<in>set (supernets n). \<exists>sn. s = Inr sn \<and> sn \<notin> prefix ` set (iter c)"
  proof
    fix s assume "s \<in> set (supernets n)"
    then obtain l sn where "l \<le> prefixlen n" "s = Inr sn" "supernet n l = Inr sn"
      using supernets_Inr by blast
    then show "\<exists>sn. s = Inr sn \<and> sn \<notin> prefix ` set (iter c)"
      using assms(3) by auto
  qed
  then have hits: "supernets_loop c (supernets n) = Inr []"
    by (rule supernets_loop_absent[OF assms(1)])
  then have "getitem_loop c (supernets n) = Inl KeyError"
    using loops_agree[OF hits] by simp
  then show ?thesis
    using hits assms(2) by (simp add: get_prefix_and_supernets_def getitem_def)
qed

lemma net_11_8_absent:
  "\<forall>l\<le>prefixlen net_11_8. \<forall>p\<in>set (iter ranges_10). supernet net_11_8 l \<noteq> Inr (prefix p)"
proof (intro allI impI ballI)
  fix l p assume l: "l \<le> prefixlen net_11_8" and p: "p \<in> set (iter ranges_10)"
  have "prefixlen (prefix p) = 16 \<or> prefix p = net_10_8"
    using p by (auto simp: iter_def example_defs)
  moreover have "supernet net_11_8 8 \<noteq> Inr net_10_8"
    by (simp add: supernet_def netmask_def ip_int_from_prefix_def ALL_ONES_def max_prefixlen_def
        example_defs)
  moreover have "\<exists>sn. supernet net_11_8 l = Inr sn \<and> prefixlen sn = l"
    using l by (simp add: supernet_def net_11_8_def)
  ultimately show "supernet net_11_8 l \<noteq> Inr (prefix p)"
    using l by (auto simp: net_11_8_def net_10_8_def)
qed

theorem get_prefix_and_supernets_default_witness:
  "well_typed ranges_10 \<and> item_network (ItemNetwork net_11_8) = Inr net_11_8 \<and>
   get_prefix_and_supernets ranges_10 (ItemNetwork net_11_8) (None :: string option) =
     Inr (Inr None) \<and>
   getitem ranges_10 (ItemNetwork net_11_8) = Inl KeyError"
proof -
  have n: "item_network (ItemNetwork net_11_8) = Inr net_11_8"
    by (simp add: item_network_def)
  show ?thesis
    using get_prefix_and_supernets_default[OF ranges_10_well_typed n net_11_8_absent]
      ranges_10_well_typed n
    by simp
qed

text \<open>
  The claim as the specification states it fails on a collection that the
  constructor accepts and whose sequence of IPv4 records holds an IPv6 record:
  no stored record matches 11.0.0.0/8 at any supernet length, and the
  comparison of the stored IPv6 network with an IPv4 supernet in the binary
  search raises \<open>TypeError\<close>, in the ancestors lookup and in the
  longest-prefix-match lookup alike.
\<close>

theorem get_prefix_and_supernets_mistyped:
  "AWSIPPrefixes_init None None [rec_v6] [] None = Inr ranges_mistyped \<and>
   iter ranges_mistyped = [rec_v6] \<and>
   version (prefix rec_v6) = IPv6 \<and> version net_11_8 = IPv4 \<and>
   item_network (ItemNetwork net_11_8) = Inr net_11_8 \<and>
   longest_match ranges_mistyped net_11_8 = None \<and>
   supernet net_11_8 0 = Inr net_default_route \<and>
   stored_record ranges_mistyped net_default_route = None \<and>
   get_prefix_and_supernets ranges_mistyped (ItemNetwork net_11_8) (None :: string option) =
     Inl TypeError \<and>
   getitem ranges_mistyped (ItemNetwork net_11_8) = Inl TypeError"
  by (simp add: lookup_defs bisect_left_loop.simps construction_defs example_defs
      range_down_numeral longest_match_def stored_record_def truncate_network_def iter_def)

text \<open>
  Claim C1 at a collection that holds the network 0.0.0.0/0. By
  \<open>getitem_longest_match\<close>, on records without scope id that are stored in
  the sequence of their IP version, the lookup returns the record of the
  longest stored supernet among the lengths from the item's own down to 1. The
  collection here is one the constructor returns. The supernet of length 0 of
  10.0.0.0/8 is 0.0.0.0/0 and the exact lookup finds its record, but the walk
  stops at length 1: the longest-prefix-match lookup of 10.0.0.0/8, and of the
  stored record itself, raises \<open>KeyError\<close>.
\<close>

theorem getitem_misses_default_route:
  "AWSIPPrefixes_init None None [rec_default_route] [] None = Inr ranges_default_route \<and>
   supernet net_10_8 0 = Inr net_default_route \<and>
   get_prefix ranges_default_route net_default_route = Inr (Some rec_default_route) \<and>
   supernets net_default_route = [] \<and>
   getitem ranges_default_route (ItemNetwork net_10_8) = Inl KeyError \<and>
   getitem ranges_default_route (ItemPrefix rec_default_route) = Inl KeyError"
  by (simp add: lookup_defs bisect_left_loop.simps construction_defs example_defs range_down_numeral)

end
